theory Spec2Isabelle
  imports Main "HOL-Library.Word" "HOL-Library.Sublist" "HOL-Library.Multiset"
begin

section \<open>Strings\<close>

text \<open>
  Go strings are byte sequences; they are modelled as \<open>string\<close> (a list of 8-bit
  characters).  \<open>HasPrefix\<close>, \<open>HasSuffix\<close>, \<open>Contains\<close> and \<open>TrimPrefix\<close> of
  package \<open>strings\<close> compare bytes and are defined below.

  \<open>strings.ToLower\<close> and \<open>strings.EqualFold\<close> decode the bytes as UTF-8 and
  map every letter through the Unicode case tables of the library.  Those tables
  are not part of the program, so the two functions are a parameter of the model:
  a value \<open>cf\<close> of the record \<open>caseFold\<close>, about which nothing is assumed.
\<close>

record caseFold =
  ToLower :: "string \<Rightarrow> string"
  EqualFold :: "string \<Rightarrow> string \<Rightarrow> bool"

text \<open>
  On strings whose bytes are all below 128 the two library functions do the
  following: \<open>ToLower\<close> maps \<open>A\<close>..\<open>Z\<close> to \<open>a\<close>..\<open>z\<close> and leaves every other
  byte, and \<open>EqualFold\<close> compares the strings so mapped.  \<open>asciiFold\<close> is used
  on such strings only.
\<close>

definition isASCII :: "string \<Rightarrow> bool" where
  "isASCII s = list_all (\<lambda>c. (of_char c :: nat) < 128) s"

definition toLowerChar :: "char \<Rightarrow> char" where
  "toLowerChar c =
     (let n = (of_char c :: nat)
      in if 65 \<le> n \<and> n \<le> 90 then char_of (n + 32) else c)"

definition asciiFold :: caseFold where
  "asciiFold = \<lparr>ToLower = map toLowerChar,
                 EqualFold = (\<lambda>s t. map toLowerChar s = map toLowerChar t)\<rparr>"

definition HasPrefix :: "string \<Rightarrow> string \<Rightarrow> bool" where
  "HasPrefix s p = prefix p s"

definition HasSuffix :: "string \<Rightarrow> string \<Rightarrow> bool" where
  "HasSuffix s p = suffix p s"

definition Contains :: "string \<Rightarrow> string \<Rightarrow> bool" where
  "Contains s sub = sublist sub s"

definition TrimPrefix :: "string \<Rightarrow> string \<Rightarrow> string" where
  "TrimPrefix s p = (if HasPrefix s p then drop (length p) s else s)"

section \<open>Search results\<close>

text \<open>The struct \<open>FileScore\<close> of \<open>main.go\<close>.\<close>

record FileScore =
  Path :: string
  Score :: int
  Reasons :: "string list"
  IsDep :: bool

section \<open>The symbol query adapter\<close>

text \<open>One element of the decoded \<open>workspace/symbol\<close> answer.\<close>

record symbol =
  Name :: string
  Kind :: int
  ContainerName :: string
  URI :: string

text \<open>
  The body of the loop of \<open>SymbolSearch\<close> for one symbol: \<open>None\<close> is a
  \<open>continue\<close>, \<open>Some r\<close> is the record appended to the results.  \<open>goRoot\<close> is
  the value of \<open>runtime.GOROOT()\<close>, \<open>cf\<close> the case mapping of the library.
\<close>

definition symbolPath :: "symbol \<Rightarrow> string" where
  "symbolPath s = TrimPrefix (URI s) ''file://''"

definition symbolScore :: "caseFold \<Rightarrow> string \<Rightarrow> symbol \<Rightarrow> int" where
  "symbolScore cf query s =
     (let nameLower = ToLower cf (Name s);
          queryLower = ToLower cf query;
          pathStr = symbolPath s;
          isDep = Contains pathStr ''/pkg/mod/'';
          score = 50;
          score = (if EqualFold cf (Name s) query then score + 50
                   else if HasPrefix nameLower queryLower then score + 20
                   else score);
          score = (if Kind s = 5 \<or> Kind s = 11 \<or> Kind s = 12 then score + 10 else score);
          score = (if isDep then score - 25 else score);
          score = (if isDep \<and> HasSuffix pathStr ''_test.go'' then score - 50 else score)
      in score)"

definition scoreSymbol ::
  "caseFold \<Rightarrow> string \<Rightarrow> string \<Rightarrow> symbol \<Rightarrow> FileScore option" where
  "scoreSymbol cf query goRoot s =
     (let queryLower = ToLower cf query;
          nameLower = ToLower cf (Name s)
      in if \<not> Contains nameLower queryLower then None
         else
           let pathStr = symbolPath s
           in if HasPrefix pathStr goRoot \<or> Contains pathStr ''/vendor/''
                   \<or> Contains pathStr ''/.cache/''
              then None
              else
                let isDep = Contains pathStr ''/pkg/mod/'';
                    score = symbolScore cf query s
                in if score \<le> 0 then None
                   else Some \<lparr>Path = pathStr, Score = score,
                              Reasons = [''gopls:'' @ Name s], IsDep = isDep\<rparr>)"

fun symbolLoop :: "caseFold \<Rightarrow> string \<Rightarrow> string \<Rightarrow> symbol list \<Rightarrow> FileScore list" where
  "symbolLoop cf query goRoot [] = []"
| "symbolLoop cf query goRoot (s # ss) =
     (case scoreSymbol cf query goRoot s of
        None \<Rightarrow> symbolLoop cf query goRoot ss
      | Some r \<Rightarrow> r # symbolLoop cf query goRoot ss)"

section \<open>Errors\<close>

text \<open>
  The errors the modelled functions return: the timeout of \<open>Call\<close>, a failed
  write to the pipe, a failed \<open>json.Unmarshal\<close>, and the error of
  \<open>filepath.Rel\<close>.
\<close>

datatype error = Timeout | WriteError | DecodeError | RelError

section \<open>Paths\<close>

text \<open>
  The functions of Go's \<open>path/filepath\<close> that \<open>Search\<close> calls, for a Unix
  target (separator \<open>/\<close>, no volume names).  \<open>Clean\<close> follows the library's
  loop: \<open>out\<close> is the output buffer, \<open>dotdot\<close> the index where a \<open>..\<close> must
  stop backtracking.
\<close>

definition IsAbs :: "string \<Rightarrow> bool" where
  "IsAbs p = HasPrefix p ''/''"

fun backtrack :: "string \<Rightarrow> nat \<Rightarrow> nat \<Rightarrow> nat" where
  "backtrack out dotdot 0 = 0"
| "backtrack out dotdot (Suc w) =
     (if Suc w > dotdot \<and> out ! Suc w \<noteq> CHR ''/'' then backtrack out dotdot w else Suc w)"

function cleanLoop :: "bool \<Rightarrow> string \<Rightarrow> string \<Rightarrow> nat \<Rightarrow> string" where
  "cleanLoop rooted [] out dotdot = out"
| "cleanLoop rooted (c # cs) out dotdot =
     (if c = CHR ''/'' then cleanLoop rooted cs out dotdot
      else if c = CHR ''.'' \<and> (cs = [] \<or> take 1 cs = ''/'') then cleanLoop rooted cs out dotdot
      else if c = CHR ''.'' \<and> take 1 cs = ''.'' \<and> (drop 1 cs = [] \<or> take 1 (drop 1 cs) = ''/'')
      then
        (if length out > dotdot
         then cleanLoop rooted (drop 1 cs)
                (take (backtrack out dotdot (length out - 1)) out) dotdot
         else if \<not> rooted
         then
           (let out' = (if out \<noteq> [] then out @ ''/'' else out) @ ''..''
            in cleanLoop rooted (drop 1 cs) out' (length out'))
         else cleanLoop rooted (drop 1 cs) out dotdot)
      else
        (let out' = (if (rooted \<and> length out \<noteq> 1) \<or> (\<not> rooted \<and> length out \<noteq> 0)
                     then out @ ''/'' else out)
         in cleanLoop rooted (dropWhile (\<lambda>x. x \<noteq> CHR ''/'') cs)
              (out' @ c # takeWhile (\<lambda>x. x \<noteq> CHR ''/'') cs) dotdot))"
  by pat_completeness auto
termination
  by (relation "measure (\<lambda>(rooted, p, out, dotdot). length p)")
     (auto intro: le_imp_less_Suc length_dropWhile_le)

definition Clean :: "string \<Rightarrow> string" where
  "Clean path =
     (if path = [] then ''.''
      else
        let rooted = (take 1 path = ''/'');
            out = (if rooted then cleanLoop True (drop 1 path) ''/'' 1
                   else cleanLoop False path [] 0)
        in if out = [] then ''.'' else out)"

text \<open>\<open>filepath.Join\<close> of two elements.\<close>

definition Join :: "string \<Rightarrow> string \<Rightarrow> string" where
  "Join a b =
     (if a \<noteq> [] then Clean (a @ ''/'' @ b)
      else if b \<noteq> [] then Clean b
      else [])"

text \<open>
  \<open>filepath.Rel\<close>.  \<open>relLoop\<close> walks both cleaned paths element by element and
  stops at the first pair of elements that differ; it returns what is left of the
  base from the start of the current element, that element, and what is left of the
  target.
\<close>

definition notSep :: "char \<Rightarrow> bool" where
  "notSep x = (x \<noteq> CHR ''/'')"

function relLoop :: "string \<Rightarrow> string \<Rightarrow> string \<times> string \<times> string" where
  "relLoop rb rt =
     (if rb \<noteq> [] \<and> rt \<noteq> []
      then
        (let eb = takeWhile notSep rb;
             et = takeWhile notSep rt
         in if et \<noteq> eb then (rb, eb, rt)
            else relLoop (drop 1 (dropWhile notSep rb)) (drop 1 (dropWhile notSep rt)))
      else (rb, [], rt))"
  by pat_completeness auto
termination
proof (relation "measure (\<lambda>(rb, rt). length rb)")
  show "wf (measure (\<lambda>(rb, rt). length rb))" by simp
next
  fix rb rt :: string and x xa
  assume "rb \<noteq> [] \<and> rt \<noteq> []"
  then obtain c cs where rb: "rb = c # cs" by (cases rb) auto
  have "length (drop 1 (dropWhile notSep (c # cs))) < length (c # cs)"
  proof (cases "notSep c")
    case True
    have "length (dropWhile notSep cs) \<le> length cs" by (rule length_dropWhile_le)
    with True show ?thesis by simp
  next
    case False
    then show ?thesis by simp
  qed
  with rb show "((drop 1 (dropWhile notSep rb), drop 1 (dropWhile notSep rt)), rb, rt)
        \<in> measure (\<lambda>(rb, rt). length rb)" by simp
qed

definition Rel :: "string \<Rightarrow> string \<Rightarrow> error + string" where
  "Rel basepath targpath =
     (let base = Clean basepath;
          targ = Clean targpath
      in if targ = base then Inr ''.''
         else
           let base = (if base = ''.'' then [] else base)
           in if IsAbs base \<noteq> IsAbs targ then Inl RelError
              else
                case relLoop base targ of
                  (rb, eb, rt) \<Rightarrow>
                    if eb = ''..'' then Inl RelError
                    else if rb \<noteq> []
                    then Inr (''..'' @ concat (replicate (count_list rb CHR ''/'') ''/..'')
                              @ (if rt \<noteq> [] then ''/'' @ rt else []))
                    else Inr rt)"

section \<open>The JSON-RPC client\<close>

text \<open>
  \<open>json.RawMessage\<close> is a byte slice that may be \<open>nil\<close>: \<open>None\<close> is the nil
  slice.  Request parameters are the \<open>map[string]any\<close> values the program builds.
\<close>

type_synonym RawMessage = "string option"

type_synonym int64 = "64 word"

datatype json = JNum int | JStr string | JObj "(string \<times> json) list"

text \<open>\<open>JsonRpcReq\<close> and \<open>JsonRpcNotification\<close>, as handed to \<open>writeMsg\<close>.\<close>

datatype message = Request int64 string json | Notification string json

record JsonRpcResp =
  ID :: int64
  Result :: RawMessage
  ErrorMessage :: "string option"

text \<open>
  The struct \<open>GoplsClient\<close>.  A channel made by \<open>Call\<close> is a handle (\<open>nchan\<close>
  counts the channels made so far); \<open>mailbox\<close> holds the value buffered in a
  channel, if any; \<open>wire\<close> is what has been written to the subprocess's standard
  input, message by message.
\<close>

record GoplsClient =
  seq :: int64
  pending :: "int64 \<rightharpoonup> nat"
  nchan :: nat
  mailbox :: "nat \<rightharpoonup> RawMessage"
  wire :: "message list"

definition newClient :: GoplsClient where
  "newClient = \<lparr>seq = 0, pending = Map.empty, nchan = 0, mailbox = Map.empty, wire = []\<rparr>"

text \<open>
  The method \<open>write\<close> of the client (named \<open>writeMsg\<close> here): \<open>ok\<close> tells
  whether the writes to the pipe succeed.
\<close>

definition writeMsg :: "GoplsClient \<Rightarrow> message \<Rightarrow> bool \<Rightarrow> GoplsClient \<times> error option" where
  "writeMsg c msg ok = (if ok then (c\<lparr>wire := wire c @ [msg]\<rparr>, None) else (c, Some WriteError))"

definition Notify :: "GoplsClient \<Rightarrow> string \<Rightarrow> json \<Rightarrow> bool \<Rightarrow> GoplsClient \<times> error option" where
  "Notify c method params ok = writeMsg c (Notification method params) ok"

text \<open>The \<open>atomic.AddInt64(&c.seq, 1)\<close> of \<open>Call\<close>: it returns the new value.\<close>

definition nextID :: "GoplsClient \<Rightarrow> GoplsClient \<times> int64" where
  "nextID c = (c\<lparr>seq := seq c + 1\<rparr>, seq c + 1)"

text \<open>
  \<open>handleMessage\<close>.  Its argument is the outcome of \<open>json.Unmarshal(body, &resp)\<close>:
  \<open>None\<close> when unmarshalling fails.
\<close>

definition handleMessage :: "GoplsClient \<Rightarrow> JsonRpcResp option \<Rightarrow> GoplsClient" where
  "handleMessage c dec =
     (case dec of
        None \<Rightarrow> c
      | Some resp \<Rightarrow>
          if ID resp \<noteq> 0
          then (case pending c (ID resp) of
                  None \<Rightarrow> c
                | Some ch \<Rightarrow>
                    c\<lparr>pending := (pending c)(ID resp := None),
                      mailbox := (mailbox c)(ch \<mapsto> Result resp)\<rparr>)
          else c)"

text \<open>
  \<open>Call\<close> in three parts.  \<open>callBegin\<close> is everything up to the \<open>select\<close>:
  allocate the identifier, make and register the channel, write the request, and
  unregister on a write error.  Then the dispatcher handles the messages that
  arrive while the caller is blocked (\<open>arrivals\<close>, in order).  \<open>callWait\<close> is the
  \<open>select\<close>: the channel's value if it holds one, else the
  \<open>time.After(5 * time.Second)\<close> case.
\<close>

definition callBegin ::
  "GoplsClient \<Rightarrow> string \<Rightarrow> json \<Rightarrow> bool \<Rightarrow> GoplsClient \<times> (error + int64 \<times> nat)" where
  "callBegin c method params ok =
     (case nextID c of
        (c1, rid) \<Rightarrow>
          let ch = nchan c1;
              c2 = c1\<lparr>nchan := Suc (nchan c1)\<rparr>;
              c3 = c2\<lparr>pending := (pending c2)(rid \<mapsto> ch)\<rparr>
          in case writeMsg c3 (Request rid method params) ok of
               (c4, Some err) \<Rightarrow> (c4\<lparr>pending := (pending c4)(rid := None)\<rparr>, Inl err)
             | (c4, None) \<Rightarrow> (c4, Inr (rid, ch)))"

definition callWait :: "GoplsClient \<Rightarrow> int64 \<Rightarrow> nat \<Rightarrow> GoplsClient \<times> (error + RawMessage)" where
  "callWait c rid ch =
     (case mailbox c ch of
        Some res \<Rightarrow> (c\<lparr>mailbox := (mailbox c)(ch := None)\<rparr>, Inr res)
      | None \<Rightarrow> (c\<lparr>pending := (pending c)(rid := None)\<rparr>, Inl Timeout))"

definition Call ::
  "GoplsClient \<Rightarrow> string \<Rightarrow> json \<Rightarrow> bool \<Rightarrow> JsonRpcResp option list
     \<Rightarrow> GoplsClient \<times> (error + RawMessage)" where
  "Call c method params ok arrivals =
     (case callBegin c method params ok of
        (c1, Inl err) \<Rightarrow> (c1, Inl err)
      | (c1, Inr (rid, ch)) \<Rightarrow> callWait (foldl handleMessage c1 arrivals) rid ch)"

text \<open>The identifiers of \<open>n\<close> allocations in a row.\<close>

fun allocIDs :: "nat \<Rightarrow> GoplsClient \<Rightarrow> int64 list" where
  "allocIDs 0 c = []"
| "allocIDs (Suc n) c = (case nextID c of (c1, rid) \<Rightarrow> rid # allocIDs n c1)"

subsection \<open>Startup\<close>

text \<open>
  \<open>InitGopls\<close>.  The environment says whether \<open>exec.LookPath\<close> and
  \<open>cmd.Start\<close> succeed, the process identifier, whether the two writes succeed and
  what the dispatcher receives while \<open>initialize\<close> is pending.  The result is the
  new value of the global \<open>GoplsInstance\<close> (\<open>None\<close> is \<open>nil\<close>) and what was
  written to the subprocess.
\<close>

record init_env =
  lookPathOk :: bool
  startOk :: bool
  pid :: int
  callWriteOk :: bool
  initArrivals :: "JsonRpcResp option list"
  notifyWriteOk :: bool

definition initParams :: "int \<Rightarrow> string \<Rightarrow> json" where
  "initParams p rootPath =
     JObj [(''processId'', JNum p), (''rootUri'', JStr (''file://'' @ rootPath)),
           (''capabilities'', JObj [])]"

definition InitGopls :: "init_env \<Rightarrow> string \<Rightarrow> GoplsClient option \<times> message list" where
  "InitGopls env rootPath =
     (if \<not> lookPathOk env then (None, [])
      else if \<not> startOk env then (None, [])
      else
        case Call newClient ''initialize'' (initParams (pid env) rootPath)
               (callWriteOk env) (initArrivals env) of
          (c1, Inl err) \<Rightarrow> (None, wire c1)
        | (c1, Inr resp) \<Rightarrow>
            (case Notify c1 ''initialized'' (JObj []) (notifyWriteOk env) of
               (c2, _) \<Rightarrow> (if resp \<noteq> None then Some c2 else None, wire c2)))"

subsection \<open>SymbolSearch\<close>

text \<open>
  \<open>unmarshal\<close> is \<open>json.Unmarshal\<close> into the slice of symbols (\<open>None\<close> when it
  fails).
\<close>

definition SymbolSearch ::
  "caseFold \<Rightarrow> (RawMessage \<Rightarrow> symbol list option) \<Rightarrow> string \<Rightarrow> GoplsClient \<Rightarrow> string
     \<Rightarrow> bool \<Rightarrow> JsonRpcResp option list \<Rightarrow> GoplsClient \<times> (error + FileScore list)" where
  "SymbolSearch cf unmarshal goRoot c query ok arrivals =
     (case Call c ''workspace/symbol'' (JObj [(''query'', JStr query)]) ok arrivals of
        (c1, Inl err) \<Rightarrow> (c1, Inl err)
      | (c1, Inr res) \<Rightarrow>
          (case unmarshal res of
             None \<Rightarrow> (c1, Inl DecodeError)
           | Some symbols \<Rightarrow> (c1, Inr (symbolLoop cf query goRoot symbols))))"

section \<open>The read loop\<close>

text \<open>
  \<open>strconv.Atoi\<close> on a 64-bit target, with its error flag.  Short inputs take the
  fast path; the others go through \<open>ParseInt\<close>, which stops at the first
  overflow and then returns the largest magnitude with a range error.
\<close>

definition isDigit :: "char \<Rightarrow> bool" where
  "isDigit c = (48 \<le> (of_char c :: int) \<and> (of_char c :: int) \<le> 57)"

definition digitVal :: "char \<Rightarrow> int" where
  "digitVal c = (of_char c :: int) - 48"

datatype numError = NoError | ErrSyntax | ErrRange

fun fastDigits :: "int \<Rightarrow> string \<Rightarrow> int option" where
  "fastDigits n [] = Some n"
| "fastDigits n (ch # s) = (if \<not> isDigit ch then None else fastDigits (n * 10 + digitVal ch) s)"

fun parseUintLoop :: "int \<Rightarrow> string \<Rightarrow> int \<times> numError" where
  "parseUintLoop n [] = (n, NoError)"
| "parseUintLoop n (c # s) =
     (if \<not> isDigit c then (0, ErrSyntax)
      else if n \<ge> (2 ^ 64 - 1) div 10 + 1 then (2 ^ 64 - 1, ErrRange)
      else
        let n1 = n * 10 + digitVal c
        in if n1 > 2 ^ 64 - 1 then (2 ^ 64 - 1, ErrRange) else parseUintLoop n1 s)"

definition ParseUint :: "string \<Rightarrow> int \<times> numError" where
  "ParseUint s = (if s = [] then (0, ErrSyntax) else parseUintLoop 0 s)"

definition ParseInt :: "string \<Rightarrow> int \<times> numError" where
  "ParseInt s =
     (if s = [] then (0, ErrSyntax)
      else
        let neg = (take 1 s = ''-'');
            s1 = (if take 1 s = ''+'' \<or> take 1 s = ''-'' then drop 1 s else s)
        in case ParseUint s1 of
             (un, err) \<Rightarrow>
               if err = ErrSyntax then (0, ErrSyntax)
               else if \<not> neg \<and> un \<ge> 2 ^ 63 then (2 ^ 63 - 1, ErrRange)
               else if neg \<and> un > 2 ^ 63 then (- (2 ^ 63), ErrRange)
               else (if neg then - un else un, NoError))"

definition Atoi :: "string \<Rightarrow> int \<times> numError" where
  "Atoi s =
     (if 0 < length s \<and> length s < 19
      then
        let s1 = (if take 1 s = ''-'' \<or> take 1 s = ''+'' then drop 1 s else s)
        in if length s1 < 1 then (0, ErrSyntax)
           else case fastDigits 0 s1 of
                  None \<Rightarrow> (0, ErrSyntax)
                | Some n \<Rightarrow> (if take 1 s = ''-'' then - n else n, NoError)
      else ParseInt s)"

text \<open>
  A \<open>textproto.MIMEHeader\<close> maps a canonical key to its values; \<open>Get\<close> returns
  the first one, or the empty string.
\<close>

type_synonym MIMEHeader = "string \<rightharpoonup> string list"

definition Get :: "MIMEHeader \<Rightarrow> string \<Rightarrow> string" where
  "Get h key = (case h key of None \<Rightarrow> [] | Some [] \<Rightarrow> [] | Some (v # vs) \<Rightarrow> v)"

text \<open>
  \<open>make([]byte, length)\<close> panics when the length is negative or larger than the
  runtime's \<open>maxAlloc\<close> (\<open>2 ^ 48\<close> on the 64-bit targets).
\<close>

definition maxAlloc :: int where
  "maxAlloc = 2 ^ 48"

datatype exit = Returned | Panicked

text \<open>
  \<open>ReadLoop\<close> over a reader in state \<open>r\<close>.  \<open>readMIMEHeader\<close> and \<open>readFull\<close>
  are the two reads of the loop, \<open>None\<close> when they return an error.  The loop
  may run forever, so the model is a partial function: \<open>None\<close> is the loop that
  never ends.  \<open>acc\<close> collects the bodies handed to \<open>handleMessage\<close>.
\<close>

partial_function (option) ReadLoop ::
  "('r \<Rightarrow> (MIMEHeader \<times> 'r) option) \<Rightarrow> ('r \<Rightarrow> nat \<Rightarrow> (string \<times> 'r) option)
     \<Rightarrow> 'r \<Rightarrow> string list \<Rightarrow> (exit \<times> string list) option" where
  "ReadLoop readMIMEHeader readFull r acc =
     (case readMIMEHeader r of
        None \<Rightarrow> Some (Returned, acc)
      | Some (headers, r1) \<Rightarrow>
          (let lengthStr = Get headers ''Content-Length'';
               len = fst (Atoi lengthStr)
           in if len = 0 then ReadLoop readMIMEHeader readFull r1 acc
              else if len < 0 \<or> len > maxAlloc then Some (Panicked, acc)
              else
                case readFull r1 (nat len) of
                  None \<Rightarrow> Some (Returned, acc)
                | Some (body, r2) \<Rightarrow> ReadLoop readMIMEHeader readFull r2 (acc @ [body])))"

section \<open>The search orchestrator\<close>

text \<open>
  The merge loop of the gopls goroutine of \<open>Search\<close>: \<open>results\<close> is the shared
  slice as it is when the goroutine takes the mutex.
\<close>

definition existingAbs :: "string \<Rightarrow> FileScore \<Rightarrow> string" where
  "existingAbs absRoot existing =
     (if \<not> IsAbs (Path existing) then Join absRoot (Path existing) else Path existing)"

definition isDup :: "string \<Rightarrow> FileScore list \<Rightarrow> FileScore \<Rightarrow> bool" where
  "isDup absRoot results gr = list_ex (\<lambda>existing. existingAbs absRoot existing = Path gr) results"

definition relativize :: "string \<Rightarrow> FileScore \<Rightarrow> FileScore" where
  "relativize absRoot gr =
     (if HasPrefix (Path gr) absRoot
      then gr\<lparr>Path := (case Rel absRoot (Path gr) of Inl err \<Rightarrow> [] | Inr rel \<Rightarrow> rel),
              IsDep := False\<rparr>
      else gr)"

fun mergeGopls :: "string \<Rightarrow> FileScore list \<Rightarrow> FileScore list \<Rightarrow> FileScore list" where
  "mergeGopls absRoot results [] = results"
| "mergeGopls absRoot results (gr # goplsRes) =
     (if isDup absRoot results gr then mergeGopls absRoot results goplsRes
      else mergeGopls absRoot (results @ [relativize absRoot gr]) goplsRes)"

text \<open>
  The two goroutines each change \<open>results\<close> once, under the mutex; nothing orders
  them, so the schedule is an input: which goroutine takes the mutex first.
  \<open>localRes\<close> is what \<open>LocalSearch\<close> returned; \<open>goplsRes\<close> is \<open>None\<close> when
  \<open>GoplsInstance\<close> is \<open>nil\<close>, and else what \<open>SymbolSearch\<close> returned.
\<close>

datatype schedule = LocalFirst | RemoteFirst

definition localBranch :: "FileScore list \<Rightarrow> FileScore list \<Rightarrow> FileScore list" where
  "localBranch results localRes = results @ localRes"

definition remoteBranch ::
  "string \<Rightarrow> FileScore list \<Rightarrow> (error + FileScore list) option \<Rightarrow> FileScore list" where
  "remoteBranch absRoot results goplsRes =
     (case goplsRes of
        None \<Rightarrow> results
      | Some (Inl err) \<Rightarrow> results
      | Some (Inr rs) \<Rightarrow> mergeGopls absRoot results rs)"

definition collect ::
  "schedule \<Rightarrow> string \<Rightarrow> FileScore list \<Rightarrow> (error + FileScore list) option \<Rightarrow> FileScore list" where
  "collect sched absRoot localRes goplsRes =
     (case sched of
        LocalFirst \<Rightarrow> remoteBranch absRoot (localBranch [] localRes) goplsRes
      | RemoteFirst \<Rightarrow> localBranch (remoteBranch absRoot [] goplsRes) localRes)"

text \<open>
  The comparison given to \<open>sort.Slice\<close>, and \<open>Search\<close> itself.  \<open>sortSlice\<close> is
  \<open>sort.Slice\<close>: the library promises a sorted permutation and says that the sort
  is not guaranteed to be stable.
\<close>

definition scoreGreater :: "FileScore \<Rightarrow> FileScore \<Rightarrow> bool" where
  "scoreGreater a b = (Score a > Score b)"

definition sortSliceContract ::
  "((FileScore \<Rightarrow> FileScore \<Rightarrow> bool) \<Rightarrow> FileScore list \<Rightarrow> FileScore list) \<Rightarrow> bool" where
  "sortSliceContract sortSlice =
     (\<forall>xs. mset (sortSlice scoreGreater xs) = mset xs
         \<and> sorted_wrt (\<lambda>a b. \<not> scoreGreater b a) (sortSlice scoreGreater xs))"

definition Search ::
  "((FileScore \<Rightarrow> FileScore \<Rightarrow> bool) \<Rightarrow> FileScore list \<Rightarrow> FileScore list) \<Rightarrow> schedule
     \<Rightarrow> string \<Rightarrow> FileScore list \<Rightarrow> (error + FileScore list) option
     \<Rightarrow> error + FileScore list" where
  "Search sortSlice sched absRoot localRes goplsRes =
     (let results = collect sched absRoot localRes goplsRes;
          results = sortSlice scoreGreater results;
          results = (if length results > 50 then take 50 results else results)
      in Inr results)"

section \<open>The sort of the library\<close>

text \<open>
  \<open>sort.Slice\<close> as the library implements it since Go 1.19 (file
  \<open>zsortfunc.go\<close> of package \<open>sort\<close>): a pattern-defeating quicksort over the
  pair \<open>lessSwap\<close> of the comparison and of the function that swaps two elements.
  The slice is a list, \<open>Less\<close> and \<open>Swap\<close> are the two methods of \<open>lessSwap\<close>,
  indices are natural numbers, and every loop is a recursive function that returns
  the slice.  The functions index the slice only between the bounds \<open>a\<close> and
  \<open>b\<close> they are given.
\<close>

unbundle bit_operations_syntax

definition Less :: "('a \<Rightarrow> 'a \<Rightarrow> bool) \<Rightarrow> 'a list \<Rightarrow> nat \<Rightarrow> nat \<Rightarrow> bool" where
  "Less lt data i j = lt (data ! i) (data ! j)"

definition Swap :: "'a list \<Rightarrow> nat \<Rightarrow> nat \<Rightarrow> 'a list" where
  "Swap data i j = data[i := data ! j, j := data ! i]"

text \<open>
  \<open>insertionSort_func\<close>: element \<open>i\<close> moves left while it is less than its left
  neighbour.  \<open>insertionInner\<close> is the inner loop at index \<open>j\<close>, \<open>insertionOuter\<close>
  the outer loop from \<open>i\<close>.
\<close>

fun insertionInner :: "('a \<Rightarrow> 'a \<Rightarrow> bool) \<Rightarrow> 'a list \<Rightarrow> nat \<Rightarrow> nat \<Rightarrow> 'a list" where
  "insertionInner lt data a 0 = data"
| "insertionInner lt data a (Suc j) =
     (if Suc j > a \<and> Less lt data (Suc j) j
      then insertionInner lt (Swap data (Suc j) j) a j else data)"

function insertionOuter :: "('a \<Rightarrow> 'a \<Rightarrow> bool) \<Rightarrow> 'a list \<Rightarrow> nat \<Rightarrow> nat \<Rightarrow> nat \<Rightarrow> 'a list" where
  "insertionOuter lt data a b i =
     (if i < b then insertionOuter lt (insertionInner lt data a i) a b (Suc i) else data)"
  by pat_completeness auto
termination
  by (relation "measure (\<lambda>(lt, data, a, b, i). b - i)") auto

declare insertionOuter.simps [simp del]

definition insertionSort_func :: "('a \<Rightarrow> 'a \<Rightarrow> bool) \<Rightarrow> 'a list \<Rightarrow> nat \<Rightarrow> nat \<Rightarrow> 'a list" where
  "insertionSort_func lt data a b = insertionOuter lt data a b (a + 1)"

text \<open>
  \<open>heapSort_func\<close>, the fallback when the recursion budget \<open>limit\<close> is used up.
  \<open>heapBuild\<close> and \<open>heapPop\<close> are its two loops, which count down to 0.
\<close>

function siftDown_func :: "('a \<Rightarrow> 'a \<Rightarrow> bool) \<Rightarrow> 'a list \<Rightarrow> nat \<Rightarrow> nat \<Rightarrow> nat \<Rightarrow> 'a list" where
  "siftDown_func lt data root hi first =
     (let child = 2 * root + 1
      in if child \<ge> hi then data
         else
           let child = (if child + 1 < hi \<and> Less lt data (first + child) (first + child + 1)
                        then child + 1 else child)
           in if \<not> Less lt data (first + root) (first + child) then data
              else siftDown_func lt (Swap data (first + root) (first + child)) child hi first)"
  by pat_completeness auto
termination
  by (relation "measure (\<lambda>(lt, data, root, hi, first). hi - root)") (auto simp: Let_def)

declare siftDown_func.simps [simp del]

fun heapBuild :: "('a \<Rightarrow> 'a \<Rightarrow> bool) \<Rightarrow> 'a list \<Rightarrow> nat \<Rightarrow> nat \<Rightarrow> nat \<Rightarrow> 'a list" where
  "heapBuild lt data hi first 0 = siftDown_func lt data 0 hi first"
| "heapBuild lt data hi first (Suc i) =
     heapBuild lt (siftDown_func lt data (Suc i) hi first) hi first i"

fun heapPop :: "('a \<Rightarrow> 'a \<Rightarrow> bool) \<Rightarrow> 'a list \<Rightarrow> nat \<Rightarrow> nat \<Rightarrow> 'a list" where
  "heapPop lt data first 0 = data"
| "heapPop lt data first (Suc i) =
     heapPop lt (siftDown_func lt (Swap data first (first + i)) 0 i first) first i"

definition heapSort_func :: "('a \<Rightarrow> 'a \<Rightarrow> bool) \<Rightarrow> 'a list \<Rightarrow> nat \<Rightarrow> nat \<Rightarrow> 'a list" where
  "heapSort_func lt data a b =
     (let first = a; hi = b - a
      in heapPop lt (heapBuild lt data hi first ((hi - 1) div 2)) first hi)"

text \<open>
  \<open>partialInsertionSort_func\<close>: at most five (\<open>maxSteps\<close>) out-of-order pairs are
  put in place, and none when the range has fewer than 50 elements
  (\<open>shortestShifting\<close>).  The boolean says whether the range is sorted at the end.
\<close>

function skipOrdered :: "('a \<Rightarrow> 'a \<Rightarrow> bool) \<Rightarrow> 'a list \<Rightarrow> nat \<Rightarrow> nat \<Rightarrow> nat" where
  "skipOrdered lt data b i =
     (if i < b \<and> \<not> Less lt data i (i - 1) then skipOrdered lt data b (Suc i) else i)"
  by pat_completeness auto
termination
  by (relation "measure (\<lambda>(lt, data, b, i). b - i)") auto

declare skipOrdered.simps [simp del]

fun shiftLeft :: "('a \<Rightarrow> 'a \<Rightarrow> bool) \<Rightarrow> 'a list \<Rightarrow> nat \<Rightarrow> 'a list" where
  "shiftLeft lt data 0 = data"
| "shiftLeft lt data (Suc j) =
     (if \<not> Less lt data (Suc j) j then data else shiftLeft lt (Swap data (Suc j) j) j)"

function shiftRight :: "('a \<Rightarrow> 'a \<Rightarrow> bool) \<Rightarrow> 'a list \<Rightarrow> nat \<Rightarrow> nat \<Rightarrow> 'a list" where
  "shiftRight lt data b j =
     (if j < b
      then (if \<not> Less lt data j (j - 1) then data
            else shiftRight lt (Swap data j (j - 1)) b (Suc j))
      else data)"
  by pat_completeness auto
termination
  by (relation "measure (\<lambda>(lt, data, b, j). b - j)") auto

declare shiftRight.simps [simp del]

function partialInsertionLoop ::
  "('a \<Rightarrow> 'a \<Rightarrow> bool) \<Rightarrow> 'a list \<Rightarrow> nat \<Rightarrow> nat \<Rightarrow> nat \<Rightarrow> nat \<Rightarrow> 'a list \<times> bool" where
  "partialInsertionLoop lt data a b i 0 = (data, False)"
| "partialInsertionLoop lt data a b i (Suc steps) =
     (let i = skipOrdered lt data b i
      in if i = b then (data, True)
         else if b - a < 50 then (data, False)
         else
           let data = Swap data i (i - 1);
               data = (if i - a \<ge> 2 then shiftLeft lt data (i - 1) else data);
               data = (if b - i \<ge> 2 then shiftRight lt data b (i + 1) else data)
           in partialInsertionLoop lt data a b i steps)"
  by pat_completeness auto
termination
  by (relation "measure (\<lambda>(lt, data, a, b, i, steps). steps)") auto

definition partialInsertionSort_func ::
  "('a \<Rightarrow> 'a \<Rightarrow> bool) \<Rightarrow> 'a list \<Rightarrow> nat \<Rightarrow> nat \<Rightarrow> 'a list \<times> bool" where
  "partialInsertionSort_func lt data a b = partialInsertionLoop lt data a b (a + 1) 5"

text \<open>
  \<open>breakPatterns_func\<close> swaps three elements around the middle with elements at
  positions drawn from the generator \<open>xorshift\<close> (shift amounts 13, 7 and 17),
  seeded with the length.
  \<open>bitsLen\<close> is \<open>bits.Len\<close>.
\<close>

definition xorshiftNext :: "64 word \<Rightarrow> 64 word" where
  "xorshiftNext r =
     (let r = r XOR push_bit 13 r;
          r = r XOR drop_bit 7 r;
          r = r XOR push_bit 17 r
      in r)"

function bitsLen :: "nat \<Rightarrow> nat" where
  "bitsLen n = (if n = 0 then 0 else Suc (bitsLen (n div 2)))"
  by pat_completeness auto
termination
  by (relation "measure id") auto

declare bitsLen.simps [simp del]

definition nextPowerOfTwo :: "nat \<Rightarrow> nat" where
  "nextPowerOfTwo len = 2 ^ bitsLen len"

fun breakPatternsLoop ::
  "'a list \<Rightarrow> nat \<Rightarrow> nat \<Rightarrow> nat \<Rightarrow> nat \<Rightarrow> 64 word \<Rightarrow> nat list \<Rightarrow> 'a list" where
  "breakPatternsLoop data a len modulus idx random [] = data"
| "breakPatternsLoop data a len modulus idx random (i # is) =
     (let random = xorshiftNext random;
          other = unat (random AND (of_nat modulus - 1));
          other = (if other \<ge> len then other - len else other)
      in breakPatternsLoop (Swap data (idx - 1 + i) (a + other)) a len modulus idx random is)"

definition breakPatterns_func :: "'a list \<Rightarrow> nat \<Rightarrow> nat \<Rightarrow> 'a list" where
  "breakPatterns_func data a b =
     (let len = b - a
      in if len \<ge> 8
         then breakPatternsLoop data a len (nextPowerOfTwo len) (a + (len div 4) * 2 - 1)
                (of_nat len) [0, 1, 2]
         else data)"

text \<open>
  \<open>choosePivot_func\<close>: the median of three elements for a range of 8 to 49
  elements, the median of three medians from 50 on; \<open>swaps\<close> counts the exchanges
  made while ordering the candidates, and decides the hint.
\<close>

datatype sortedHint = unknownHint | increasingHint | decreasingHint

definition order2_func ::
  "('a \<Rightarrow> 'a \<Rightarrow> bool) \<Rightarrow> 'a list \<Rightarrow> nat \<Rightarrow> nat \<Rightarrow> nat \<Rightarrow> nat \<times> nat \<times> nat" where
  "order2_func lt data a b swaps =
     (if Less lt data b a then (b, a, swaps + 1) else (a, b, swaps))"

definition median_func ::
  "('a \<Rightarrow> 'a \<Rightarrow> bool) \<Rightarrow> 'a list \<Rightarrow> nat \<Rightarrow> nat \<Rightarrow> nat \<Rightarrow> nat \<Rightarrow> nat \<times> nat" where
  "median_func lt data a b c swaps =
     (case order2_func lt data a b swaps of
        (a, b, swaps) \<Rightarrow>
          (case order2_func lt data b c swaps of
             (b, c, swaps) \<Rightarrow>
               (case order2_func lt data a b swaps of
                  (a, b, swaps) \<Rightarrow> (b, swaps))))"

definition medianAdjacent_func ::
  "('a \<Rightarrow> 'a \<Rightarrow> bool) \<Rightarrow> 'a list \<Rightarrow> nat \<Rightarrow> nat \<Rightarrow> nat \<times> nat" where
  "medianAdjacent_func lt data a swaps = median_func lt data (a - 1) a (a + 1) swaps"

definition choosePivot_func ::
  "('a \<Rightarrow> 'a \<Rightarrow> bool) \<Rightarrow> 'a list \<Rightarrow> nat \<Rightarrow> nat \<Rightarrow> nat \<times> sortedHint" where
  "choosePivot_func lt data a b =
     (let l = b - a;
          swaps = 0;
          i = a + l div 4 * 1;
          j = a + l div 4 * 2;
          k = a + l div 4 * 3;
          (j, swaps) =
            (if l \<ge> 8
             then
               (case (if l \<ge> 50
                      then (case medianAdjacent_func lt data i swaps of
                              (i, swaps) \<Rightarrow>
                                (case medianAdjacent_func lt data j swaps of
                                   (j, swaps) \<Rightarrow>
                                     (case medianAdjacent_func lt data k swaps of
                                        (k, swaps) \<Rightarrow> (i, j, k, swaps))))
                      else (i, j, k, swaps)) of
                  (i, j, k, swaps) \<Rightarrow> median_func lt data i j k swaps)
             else (j, swaps))
      in if swaps = 0 then (j, increasingHint)
         else if swaps = 4 * 3 then (j, decreasingHint)
         else (j, unknownHint))"

text \<open>\<open>reverseRange_func\<close>.\<close>

function reverseRangeLoop :: "'a list \<Rightarrow> nat \<Rightarrow> nat \<Rightarrow> 'a list" where
  "reverseRangeLoop data i j =
     (if i < j then reverseRangeLoop (Swap data i j) (Suc i) (j - 1) else data)"
  by pat_completeness auto
termination
  by (relation "measure (\<lambda>(data, i, j). j - i)") auto

declare reverseRangeLoop.simps [simp del]

definition reverseRange_func :: "'a list \<Rightarrow> nat \<Rightarrow> nat \<Rightarrow> 'a list" where
  "reverseRange_func data a b = reverseRangeLoop data a (b - 1)"

text \<open>
  The two scans of \<open>partition_func\<close> and \<open>partitionEqual_func\<close>:
  \<open>for i <= j && P(i) { i++ }\<close> and \<open>for i <= j && P(j) { j-- }\<close>.  In both
  functions \<open>i\<close> is at least \<open>a + 1\<close>, so the second scan stops before \<open>j\<close> would
  go below 0.
\<close>

function scanUp :: "(nat \<Rightarrow> bool) \<Rightarrow> nat \<Rightarrow> nat \<Rightarrow> nat" where
  "scanUp P j i = (if i \<le> j \<and> P i then scanUp P j (Suc i) else i)"
  by pat_completeness auto
termination
  by (relation "measure (\<lambda>(P, j, i). Suc j - i)") auto

declare scanUp.simps [simp del]

fun scanDown :: "(nat \<Rightarrow> bool) \<Rightarrow> nat \<Rightarrow> nat \<Rightarrow> nat" where
  "scanDown P i 0 = 0"
| "scanDown P i (Suc j) = (if i \<le> Suc j \<and> P (Suc j) then scanDown P i j else Suc j)"

lemma scanUp_ge: "i \<le> scanUp P j i"
proof (induction P j i rule: scanUp.induct)
  case (1 P j i)
  show ?case
  proof (cases "i \<le> j \<and> P i")
    case True
    with 1 have "Suc i \<le> scanUp P j (Suc i)" by simp
    with True show ?thesis by (subst scanUp.simps) simp
  next
    case False
    then show ?thesis by (subst scanUp.simps) auto
  qed
qed

lemma scanDown_le: "scanDown P i j \<le> j"
  by (induction j) auto

lemma scanDown_ge: "a < i \<Longrightarrow> a \<le> j \<Longrightarrow> a \<le> scanDown P i j"
  by (induction j) auto

text \<open>
  \<open>partition_func\<close> moves the pivot to \<open>a\<close>, scans once, and returns at once
  (\<open>alreadyPartitioned\<close>) when the scans cross; otherwise it swaps and enters the
  loop \<open>partitionLoop\<close>.  \<open>partitionEqual_func\<close> separates the elements equal to
  the pivot from the greater ones.
\<close>

function partitionLoop ::
  "('a \<Rightarrow> 'a \<Rightarrow> bool) \<Rightarrow> 'a list \<Rightarrow> nat \<Rightarrow> nat \<Rightarrow> nat \<Rightarrow> 'a list \<times> nat" where
  "partitionLoop lt data a i j =
     (let i = scanUp (\<lambda>i. Less lt data i a) j i;
          j = scanDown (\<lambda>j. \<not> Less lt data j a) i j
      in if i > j then (data, j)
         else partitionLoop lt (Swap data i j) a (Suc i) (j - 1))"
  by pat_completeness auto
termination
proof (relation "measure (\<lambda>(lt, data, a, i, j). Suc j - i)", goal_cases)
  case 1
  show ?case by simp
next
  case (2 lt data a i j i' j')
  have "i \<le> i'" using 2(1) by (simp add: scanUp_ge)
  moreover have "j' \<le> j" using 2(2) by (simp add: scanDown_le)
  ultimately show ?case using 2(3) by auto
qed

declare partitionLoop.simps [simp del]

definition partition_func ::
  "('a \<Rightarrow> 'a \<Rightarrow> bool) \<Rightarrow> 'a list \<Rightarrow> nat \<Rightarrow> nat \<Rightarrow> nat \<Rightarrow> 'a list \<times> nat \<times> bool" where
  "partition_func lt data a b pivot =
     (let data = Swap data a pivot;
          i = a + 1;
          j = b - 1;
          i = scanUp (\<lambda>i. Less lt data i a) j i;
          j = scanDown (\<lambda>j. \<not> Less lt data j a) i j
      in if i > j then (Swap data j a, j, True)
         else case partitionLoop lt (Swap data i j) a (Suc i) (j - 1) of
                (data, j) \<Rightarrow> (Swap data j a, j, False))"

function partitionEqualLoop ::
  "('a \<Rightarrow> 'a \<Rightarrow> bool) \<Rightarrow> 'a list \<Rightarrow> nat \<Rightarrow> nat \<Rightarrow> nat \<Rightarrow> 'a list \<times> nat" where
  "partitionEqualLoop lt data a i j =
     (let i = scanUp (\<lambda>i. \<not> Less lt data a i) j i;
          j = scanDown (\<lambda>j. Less lt data a j) i j
      in if i > j then (data, i)
         else partitionEqualLoop lt (Swap data i j) a (Suc i) (j - 1))"
  by pat_completeness auto
termination
proof (relation "measure (\<lambda>(lt, data, a, i, j). Suc j - i)", goal_cases)
  case 1
  show ?case by simp
next
  case (2 lt data a i j i' j')
  have "i \<le> i'" using 2(1) by (simp add: scanUp_ge)
  moreover have "j' \<le> j" using 2(2) by (simp add: scanDown_le)
  ultimately show ?case using 2(3) by auto
qed

declare partitionEqualLoop.simps [simp del]

definition partitionEqual_func ::
  "('a \<Rightarrow> 'a \<Rightarrow> bool) \<Rightarrow> 'a list \<Rightarrow> nat \<Rightarrow> nat \<Rightarrow> nat \<Rightarrow> 'a list \<times> nat" where
  "partitionEqual_func lt data a b pivot =
     partitionEqualLoop lt (Swap data a pivot) a (a + 1) (b - 1)"

text \<open>
  The position returned by a partition lies in the range, which is what makes
  the recursion of \<open>pdqsort_func\<close> end.
\<close>

lemma partitionLoop_bounds:
  assumes "partitionLoop lt data a i j = (data', mid)" and "a < i" and "a \<le> j"
  shows "a \<le> mid \<and> mid \<le> j"
  using assms
proof (induction lt data a i j arbitrary: data' mid rule: partitionLoop.induct)
  case (1 lt data a i j)
  let ?i = "scanUp (\<lambda>i. Less lt data i a) j i"
  let ?j = "scanDown (\<lambda>j. \<not> Less lt data j a) ?i j"
  have i: "i \<le> ?i" by (rule scanUp_ge)
  have j: "?j \<le> j" by (rule scanDown_le)
  from i "1.prems"(2) have ai: "a < ?i" by simp
  have aj: "a \<le> ?j" by (rule scanDown_ge [OF ai "1.prems"(3)])
  show ?case
  proof (cases "?i > ?j")
    case True
    with "1.prems"(1) have "mid = ?j" by (subst (asm) partitionLoop.simps) (auto simp: Let_def)
    with aj j show ?thesis by simp
  next
    case False
    with "1.prems"(1)
    have r: "partitionLoop lt (Swap data ?i ?j) a (Suc ?i) (?j - 1) = (data', mid)"
      by (subst (asm) partitionLoop.simps) (simp add: Let_def)
    from False ai have "a \<le> ?j - 1" by simp
    from "1.IH" [OF refl refl False r _ this] ai
    have "a \<le> mid \<and> mid \<le> ?j - 1" by simp
    with j show ?thesis by arith
  qed
qed

lemma partition_func_bounds:
  assumes "partition_func lt data a b pivot = (data', mid, ap)" and "a < b"
  shows "a \<le> mid \<and> mid < b"
proof -
  let ?d = "Swap data a pivot"
  let ?i = "scanUp (\<lambda>i. Less lt ?d i a) (b - 1) (a + 1)"
  let ?j = "scanDown (\<lambda>j. \<not> Less lt ?d j a) ?i (b - 1)"
  have i: "a + 1 \<le> ?i" by (rule scanUp_ge)
  have j: "?j \<le> b - 1" by (rule scanDown_le)
  from i have ai: "a < ?i" by simp
  from assms(2) have "a \<le> b - 1" by simp
  from scanDown_ge [OF ai this] have aj: "a \<le> ?j" .
  show ?thesis
  proof (cases "?i > ?j")
    case True
    with assms(1) have "mid = ?j" by (auto simp: partition_func_def Let_def)
    with aj j assms(2) show ?thesis by simp
  next
    case False
    obtain d m where r: "partitionLoop lt (Swap ?d ?i ?j) a (Suc ?i) (?j - 1) = (d, m)"
      by (cases "partitionLoop lt (Swap ?d ?i ?j) a (Suc ?i) (?j - 1)")
    with False assms(1) have "mid = m" by (auto simp: partition_func_def Let_def)
    moreover from False ai have "a \<le> ?j - 1" by simp
    from partitionLoop_bounds [OF r _ this] ai have "a \<le> m \<and> m \<le> ?j - 1" by simp
    ultimately show ?thesis using j assms(2) by arith
  qed
qed

lemma partitionEqualLoop_gt:
  assumes "partitionEqualLoop lt data a i j = (data', mid)" and "a < i"
  shows "a < mid"
  using assms
proof (induction lt data a i j arbitrary: data' mid rule: partitionEqualLoop.induct)
  case (1 lt data a i j)
  let ?i = "scanUp (\<lambda>i. \<not> Less lt data a i) j i"
  let ?j = "scanDown (\<lambda>j. Less lt data a j) ?i j"
  have i: "i \<le> ?i" by (rule scanUp_ge)
  show ?case
  proof (cases "?i > ?j")
    case True
    with "1.prems"(1) have "mid = ?i" by (subst (asm) partitionEqualLoop.simps) (auto simp: Let_def)
    with i "1.prems"(2) show ?thesis by simp
  next
    case False
    with "1.prems"(1)
    have r: "partitionEqualLoop lt (Swap data ?i ?j) a (Suc ?i) (?j - 1) = (data', mid)"
      by (subst (asm) partitionEqualLoop.simps) (simp add: Let_def)
    from i "1.prems"(2) have "a < Suc ?i" by simp
    from "1.IH" [OF refl refl False r this] show ?thesis .
  qed
qed

lemma partitionEqual_func_gt: "partitionEqual_func lt data a b pivot = (data', mid) \<Longrightarrow> a < mid"
  unfolding partitionEqual_func_def by (erule partitionEqualLoop_gt) simp


text \<open>
  \<open>pdqsort_func\<close>.  The loop variables \<open>wasBalanced\<close> and \<open>wasPartitioned\<close> are
  arguments: a call from outside and the two recursive calls of the code start
  with both true, and an iteration of the loop passes on the values it has set.
  \<open>Slice\<close> is \<open>sort.Slice\<close>.
\<close>

function pdqsort_func ::
  "('a \<Rightarrow> 'a \<Rightarrow> bool) \<Rightarrow> 'a list \<Rightarrow> nat \<Rightarrow> nat \<Rightarrow> nat \<Rightarrow> bool \<Rightarrow> bool \<Rightarrow> 'a list" where
  "pdqsort_func lt data a b limit wasBalanced wasPartitioned =
     (let len = b - a
      in if len \<le> 12 then insertionSort_func lt data a b
         else if limit = 0 then heapSort_func lt data a b
         else
           case (if \<not> wasBalanced then (breakPatterns_func data a b, limit - 1)
                 else (data, limit)) of
             (data, limit) \<Rightarrow>
           case choosePivot_func lt data a b of
             (pivot, hint) \<Rightarrow>
           case (if hint = decreasingHint
                 then (reverseRange_func data a b, (b - 1) - (pivot - a), increasingHint)
                 else (data, pivot, hint)) of
             (data, pivot, hint) \<Rightarrow>
           case (if wasBalanced \<and> wasPartitioned \<and> hint = increasingHint
                 then partialInsertionSort_func lt data a b else (data, False)) of
             (data, isSorted) \<Rightarrow>
           if isSorted then data
           else if a > 0 \<and> \<not> Less lt data (a - 1) pivot
           then (case partitionEqual_func lt data a b pivot of
                   (data, mid) \<Rightarrow>
                     pdqsort_func lt data mid b limit wasBalanced wasPartitioned)
           else
             case partition_func lt data a b pivot of
               (data, mid, alreadyPartitioned) \<Rightarrow>
                 let leftLen = mid - a;
                     rightLen = b - mid;
                     balanceThreshold = len div 8
                 in if leftLen < rightLen
                    then pdqsort_func lt (pdqsort_func lt data a mid limit True True)
                           (mid + 1) b limit (leftLen \<ge> balanceThreshold) alreadyPartitioned
                    else pdqsort_func lt (pdqsort_func lt data (mid + 1) b limit True True)
                           a mid limit (rightLen \<ge> balanceThreshold) alreadyPartitioned)"
  by pat_completeness auto
termination
proof (relation "measure (\<lambda>(lt, data, a, b, limit, wb, wp). b - a)", goal_cases)
  case 1
  show ?case by simp
next
  case 2
  then show ?case by (auto dest!: partitionEqual_func_gt [OF sym])
next
  case 3
  then show ?case by (auto dest!: partition_func_bounds [OF sym] intro: diff_less_mono diff_less_mono2)
next
  case 4
  then show ?case by (auto dest!: partition_func_bounds [OF sym] intro: diff_less_mono diff_less_mono2)
next
  case 5
  then show ?case by (auto dest!: partition_func_bounds [OF sym] intro: diff_less_mono diff_less_mono2)
next
  case 6
  then show ?case by (auto dest!: partition_func_bounds [OF sym] intro: diff_less_mono diff_less_mono2)
qed

declare pdqsort_func.simps [simp del]

definition Slice :: "('a \<Rightarrow> 'a \<Rightarrow> bool) \<Rightarrow> 'a list \<Rightarrow> 'a list" where
  "Slice lt data = pdqsort_func lt data 0 (length data) (bitsLen (length data)) True True"

section \<open>Notions used in the properties\<close>

subsection \<open>The adapter\<close>

text \<open>
  The two filters of the loop of \<open>SymbolSearch\<close>, the scoring rule in the
  words of the specification (a sum of independent contributions), and the
  record that the specification describes for a symbol.
\<close>

definition noisePath :: "string \<Rightarrow> string \<Rightarrow> bool" where
  "noisePath goRoot pathStr =
     (HasPrefix pathStr goRoot \<or> Contains pathStr ''/vendor/'' \<or> Contains pathStr ''/.cache/'')"

definition passesFilters :: "caseFold \<Rightarrow> string \<Rightarrow> string \<Rightarrow> symbol \<Rightarrow> bool" where
  "passesFilters cf query goRoot s =
     (Contains (ToLower cf (Name s)) (ToLower cf query) \<and> \<not> noisePath goRoot (symbolPath s))"

definition claimedScore :: "caseFold \<Rightarrow> string \<Rightarrow> symbol \<Rightarrow> int" where
  "claimedScore cf query s =
     50
     + (if EqualFold cf (Name s) query then 50
        else if HasPrefix (ToLower cf (Name s)) (ToLower cf query) then 20 else 0)
     + (if Kind s \<in> {5, 11, 12} then 10 else 0)
     - (if Contains (symbolPath s) ''/pkg/mod/'' then 25 else 0)
     - (if Contains (symbolPath s) ''/pkg/mod/'' \<and> HasSuffix (symbolPath s) ''_test.go''
        then 50 else 0)"

definition claimedRecord :: "caseFold \<Rightarrow> string \<Rightarrow> symbol \<Rightarrow> FileScore" where
  "claimedRecord cf query s =
     \<lparr>Path = symbolPath s, Score = claimedScore cf query s,
      Reasons = [''gopls:'' @ Name s], IsDep = Contains (symbolPath s) ''/pkg/mod/''\<rparr>"

text \<open>
  A path lies under a directory when it is the directory or below it; this is the
  test that \<open>isAllowedPath\<close> of \<open>main.go\<close> makes on cleaned paths.
\<close>

definition liesUnder :: "string \<Rightarrow> string \<Rightarrow> bool" where
  "liesUnder dir p = (p = dir \<or> HasPrefix p (dir @ ''/''))"

subsection \<open>The client\<close>

text \<open>
  Channel handles are fresh: every handle in the registry or holding a value was
  made before.  The new client satisfies this and every operation keeps it.
\<close>

definition wfClient :: "GoplsClient \<Rightarrow> bool" where
  "wfClient c = ((\<forall>rid ch. pending c rid = Some ch \<longrightarrow> ch < nchan c)
               \<and> (\<forall>ch v. mailbox c ch = Some v \<longrightarrow> ch < nchan c))"

text \<open>A call succeeded when it returned no error.\<close>

definition callOk :: "error + RawMessage \<Rightarrow> bool" where
  "callOk res = (case res of Inl err \<Rightarrow> False | Inr resp \<Rightarrow> True)"

subsection \<open>Sorting\<close>

text \<open>
  \<open>insertionSort\<close> is the insertion sort on lists: element \<open>i\<close> moves left while
  it is less than its left neighbour (\<open>front\<close> is the sorted part in reverse
  order, nearest neighbour first).  It meets the contract of \<open>sort.Slice\<close>, and it
  is what \<open>sort.Slice\<close> does on a slice of at most twelve elements.
  \<open>stableSortDesc\<close> is the stable sort by descending score of the
  specification.
\<close>

fun insertBack :: "('a \<Rightarrow> 'a \<Rightarrow> bool) \<Rightarrow> 'a \<Rightarrow> 'a list \<Rightarrow> 'a list" where
  "insertBack lt x [] = [x]"
| "insertBack lt x (y # front) =
     (if lt x y then y # insertBack lt x front else x # y # front)"

definition insertionSort :: "('a \<Rightarrow> 'a \<Rightarrow> bool) \<Rightarrow> 'a list \<Rightarrow> 'a list" where
  "insertionSort lt xs = rev (foldl (\<lambda>front x. insertBack lt x front) [] xs)"

definition stableSortDesc :: "FileScore list \<Rightarrow> FileScore list" where
  "stableSortDesc xs = sort_key (\<lambda>r. - Score r) xs"

subsection \<open>The merge\<close>

text \<open>
  The remote branch failed when there is no client or \<open>SymbolSearch\<close> returned
  an error.  A record resolves to a path when its own path, joined to the root if
  it is relative, is that path.  A list of remote records has no alias of a path
  when the only records that resolve to it, once the merge has made them
  relative, are those that carry it.  A list of remote records round-trips when
  making each path relative to the root, as the merge does, and joining it back
  to the root gives the path again; such a list has no alias of any path.
\<close>

definition remoteFailed :: "(error + FileScore list) option \<Rightarrow> bool" where
  "remoteFailed goplsRes = (case goplsRes of None \<Rightarrow> True | Some (Inl err) \<Rightarrow> True | Some (Inr rs) \<Rightarrow> False)"

definition resolvesTo :: "string \<Rightarrow> string \<Rightarrow> FileScore \<Rightarrow> bool" where
  "resolvesTo absRoot p e = (existingAbs absRoot e = p)"

definition noAlias :: "string \<Rightarrow> string \<Rightarrow> FileScore list \<Rightarrow> bool" where
  "noAlias absRoot p goplsRes =
     list_all (\<lambda>gr. resolvesTo absRoot p (relativize absRoot gr) \<longrightarrow> Path gr = p) goplsRes"

definition roundTrips :: "string \<Rightarrow> FileScore list \<Rightarrow> bool" where
  "roundTrips absRoot goplsRes =
     list_all (\<lambda>gr. existingAbs absRoot (relativize absRoot gr) = Path gr) goplsRes"

subsection \<open>Decimal numbers\<close>

text \<open>An optional sign followed by at least one digit.\<close>

definition isDecimal :: "string \<Rightarrow> bool" where
  "isDecimal s =
     (let digits = (if take 1 s = ''-'' \<or> take 1 s = ''+'' then drop 1 s else s)
      in digits \<noteq> [] \<and> list_all isDigit digits)"

section \<open>Example inputs\<close>

text \<open>
  Symbols, responses, startup environments, search results and readers on which
  the properties below are evaluated.  \<open>negReader\<close> and \<open>fullReader\<close> are
  reads that never fail: every header block declares the length \<open>-1\<close>.
\<close>

definition unmarshalSym :: symbol where
  "unmarshalSym = \<lparr>Name = ''Unmarshal'', Kind = 12, ContainerName = ''json'',
                    URI = ''file:///home/u/proj/codec/decode.go''\<rparr>"

definition depTestSym :: symbol where
  "depTestSym = \<lparr>Name = ''helperSetup'', Kind = 13, ContainerName = ''x'',
                  URI = ''file:///home/u/go/pkg/mod/example.com/x@v1.0.0/x_test.go''\<rparr>"

definition vendoredSym :: symbol where
  "vendoredSym = \<lparr>Name = ''InternalHelper'', Kind = 12, ContainerName = ''util'',
                   URI = ''file:///home/u/proj/vendor/lib/util.go''\<rparr>"

definition depSym :: symbol where
  "depSym = \<lparr>Name = ''NewHelper'', Kind = 12, ContainerName = ''x'',
              URI = ''file:///home/u/go/pkg/mod/example.com/x@v1.0.0/x.go''\<rparr>"

definition exactSym :: symbol where
  "exactSym = \<lparr>Name = ''Helper'', Kind = 5, ContainerName = ''util'',
                URI = ''file:///home/u/proj/util/helper.go''\<rparr>"

text \<open>
  An answer to \<open>workspace/symbol\<close> and its decoding: \<open>symbolBody\<close> stands for the
  JSON text of the five symbols above, \<open>decodeExample\<close> for \<open>json.Unmarshal\<close> on it.
\<close>

definition symbolBody :: string where
  "symbolBody = ''[five symbols]''"

definition symbolAnswer :: JsonRpcResp where
  "symbolAnswer = \<lparr>ID = 1, Result = Some symbolBody, ErrorMessage = None\<rparr>"

definition decodeExample :: "RawMessage \<Rightarrow> symbol list option" where
  "decodeExample res =
     (if res = Some symbolBody
      then Some [unmarshalSym, depTestSym, vendoredSym, depSym, exactSym] else None)"

definition lateResp :: JsonRpcResp where
  "lateResp = \<lparr>ID = 1, Result = Some ''[]'', ErrorMessage = None\<rparr>"

definition otherResp :: JsonRpcResp where
  "otherResp = \<lparr>ID = 9, Result = Some ''{}'', ErrorMessage = None\<rparr>"

definition envAnswered :: init_env where
  "envAnswered = \<lparr>lookPathOk = True, startOk = True, pid = 4242, callWriteOk = True,
                   initArrivals = [Some \<lparr>ID = 1, Result = Some ''{}'', ErrorMessage = None\<rparr>],
                   notifyWriteOk = True\<rparr>"

definition envSilent :: init_env where
  "envSilent = \<lparr>lookPathOk = True, startOk = True, pid = 4242, callWriteOk = True,
                 initArrivals = [], notifyWriteOk = True\<rparr>"

definition localOnly :: "FileScore list" where
  "localOnly = [\<lparr>Path = ''auth/service.go'', Score = 65, Reasons = [''func:Login''], IsDep = False\<rparr>,
                \<lparr>Path = ''auth/login.go'', Score = 575, Reasons = [''exact-file''], IsDep = False\<rparr>]"

definition tieA :: FileScore where
  "tieA = \<lparr>Path = ''auth/login.go'', Score = 90, Reasons = [''func:Login''], IsDep = False\<rparr>"

definition tieB :: FileScore where
  "tieB = \<lparr>Path = ''auth/logout.go'', Score = 90, Reasons = [''func:Logout''], IsDep = False\<rparr>"

definition low :: FileScore where
  "low = \<lparr>Path = ''README.md'', Score = 50, Reasons = [], IsDep = False\<rparr>"

text \<open>Thirteen local records: one of score 50 followed by twelve of score 90.\<close>

definition tied :: "string \<Rightarrow> FileScore" where
  "tied p = \<lparr>Path = p, Score = 90, Reasons = [''func:Parse''], IsDep = False\<rparr>"

definition thirteen :: "FileScore list" where
  "thirteen = low # map tied [''a.go'', ''b.go'', ''c.go'', ''d.go'', ''e.go'', ''f.go'',
                              ''g.go'', ''h.go'', ''i.go'', ''j.go'', ''k.go'', ''l.go'']"

definition dupLocal :: FileScore where
  "dupLocal = \<lparr>Path = ''pkg/x.go'', Score = 90, Reasons = [''func:Helper''], IsDep = False\<rparr>"

definition dupRemote :: FileScore where
  "dupRemote = \<lparr>Path = ''/home/u/proj/pkg/x.go'', Score = 60, Reasons = [''gopls:Helper''],
                 IsDep = False\<rparr>"

definition depRemote :: FileScore where
  "depRemote = \<lparr>Path = ''/home/u/go/pkg/mod/m@v1.0.0/h.go'', Score = 35,
                 Reasons = [''gopls:NewHelper''], IsDep = True\<rparr>"

definition otherLocal :: "nat \<Rightarrow> FileScore" where
  "otherLocal i = \<lparr>Path = ''cmd/tool'' @ [char_of (48 + i div 10), char_of (48 + i mod 10)] @ ''.go'',
                    Score = 200,
                    Reasons = [''exact-file''], IsDep = False\<rparr>"

definition manyLocal :: "FileScore list" where
  "manyLocal = map otherLocal [0..<50] @ [dupLocal]"

definition siblingRemote :: FileScore where
  "siblingRemote = \<lparr>Path = ''/work/app-cache/pkg/mod/m@v1.0.0/h.go'', Score = 35,
                     Reasons = [''gopls:NewHelper''], IsDep = True\<rparr>"

definition negHeader :: MIMEHeader where
  "negHeader = [''Content-Length'' \<mapsto> [''-1'']]"

definition negReader :: "nat \<Rightarrow> (MIMEHeader \<times> nat) option" where
  "negReader r = Some (negHeader, Suc r)"

definition fullReader :: "nat \<Rightarrow> nat \<Rightarrow> (string \<times> nat) option" where
  "fullReader r n = Some (replicate n CHR ''x'', Suc r)"



section \<open>Properties of the symbol query adapter\<close>

lemma symbolScore_claimed: "symbolScore cf query s = claimedScore cf query s"
  by (simp add: symbolScore_def claimedScore_def Let_def)

lemma scoreSymbol_claimed:
  "scoreSymbol cf query goRoot s =
     (if passesFilters cf query goRoot s \<and> 0 < claimedScore cf query s
      then Some (claimedRecord cf query s) else None)"
  by (auto simp: scoreSymbol_def passesFilters_def noisePath_def claimedRecord_def
      symbolScore_claimed Let_def)

lemma symbolLoop_claimed:
  "symbolLoop cf query goRoot symbols =
     map (claimedRecord cf query)
       (filter (\<lambda>s. passesFilters cf query goRoot s \<and> 0 < claimedScore cf query s) symbols)"
  by (induction symbols) (simp_all add: scoreSymbol_claimed)

lemma symbolLoop_map_filter:
  "symbolLoop cf query goRoot symbols = List.map_filter (scoreSymbol cf query goRoot) symbols"
  by (induction symbols) (auto simp: map_filter_simps split: option.splits)

lemma SymbolSearch_decoded:
  assumes "Call c ''workspace/symbol'' (JObj [(''query'', JStr query)]) ok arrivals = (c1, Inr res)"
    and "unmarshal res = Some symbols"
  shows "SymbolSearch cf unmarshal goRoot c query ok arrivals =
           (c1, Inr (symbolLoop cf query goRoot symbols))"
  using assms by (simp add: SymbolSearch_def)

lemma liesUnder_HasPrefix: "liesUnder dir p \<Longrightarrow> HasPrefix p dir"
  by (auto simp: liesUnder_def HasPrefix_def prefix_def)

lemma example_call:
  "\<exists>c1. Call newClient ''workspace/symbol'' (JObj [(''query'', JStr ''helper'')]) True
           [Some symbolAnswer] = (c1, Inr (Some symbolBody))"
  by (simp add: Call_def callBegin_def nextID_def writeMsg_def newClient_def symbolAnswer_def
      callWait_def handleMessage_def Let_def)

text \<open>
  C4.  When the \<open>workspace/symbol\<close> call returns a result and the result decodes
  to \<open>symbols\<close>, \<open>SymbolSearch\<close> returns, in the order of the answer, exactly one
  record for every symbol that passes the two filters and whose score is
  positive, and nothing else.  The score of the record is 50, plus 50 when
  \<open>EqualFold\<close> holds of the name and the query, else plus 20 when the lower-cased
  name starts with the lower-cased query, plus 10 for the kinds 5, 11 and 12,
  minus 25 for a dependency, minus 50 more for a dependency whose path ends in
  \<open>_test.go\<close>.  A symbol whose score is 0 or less has no record.  This holds
  whatever the case mapping \<open>cf\<close> of the library does.
\<close>

theorem symbol_score_rule:
  assumes call: "Call c ''workspace/symbol'' (JObj [(''query'', JStr query)]) ok arrivals
                   = (c1, Inr res)"
    and dec: "unmarshal res = Some symbols"
  shows "SymbolSearch cf unmarshal goRoot c query ok arrivals =
           (c1, Inr (map (claimedRecord cf query)
                      (filter (\<lambda>s. passesFilters cf query goRoot s \<and> 0 < claimedScore cf query s)
                         symbols)))"
  using SymbolSearch_decoded [where unmarshal = unmarshal, OF call dec] by (simp add: symbolLoop_claimed)

text \<open>
  An answer of five symbols to the query \<open>helper\<close>, all names and the query being
  ASCII: two records come back, and the test helper of a dependency, which passes
  the filters with the score \<open>- 5\<close>, has none.
\<close>

theorem symbol_score_rule_witness:
  "isASCII ''helper'' \<and> list_all (\<lambda>s. isASCII (Name s))
       [unmarshalSym, depTestSym, vendoredSym, depSym, exactSym]
   \<and> snd (SymbolSearch asciiFold decodeExample ''/usr/local/go'' newClient ''helper'' True
            [Some symbolAnswer]) =
       Inr [\<lparr>Path = ''/home/u/go/pkg/mod/example.com/x@v1.0.0/x.go'', Score = 35,
              Reasons = [''gopls:NewHelper''], IsDep = True\<rparr>,
            \<lparr>Path = ''/home/u/proj/util/helper.go'', Score = 110,
              Reasons = [''gopls:Helper''], IsDep = False\<rparr>]
   \<and> passesFilters asciiFold ''helper'' ''/usr/local/go'' depTestSym
   \<and> claimedScore asciiFold ''helper'' depTestSym = - 5"
proof -
  have a: "isASCII ''helper'' \<and> list_all (\<lambda>s. isASCII (Name s))
       [unmarshalSym, depTestSym, vendoredSym, depSym, exactSym]" by code_simp
  obtain c1 where c: "Call newClient ''workspace/symbol'' (JObj [(''query'', JStr ''helper'')]) True
           [Some symbolAnswer] = (c1, Inr (Some symbolBody))"
    using example_call by blast
  have d: "decodeExample (Some symbolBody) =
             Some [unmarshalSym, depTestSym, vendoredSym, depSym, exactSym]"
    by (simp add: decodeExample_def)
  have v: "map (claimedRecord asciiFold ''helper'')
             (filter (\<lambda>s. passesFilters asciiFold ''helper'' ''/usr/local/go'' s
                           \<and> 0 < claimedScore asciiFold ''helper'' s)
                [unmarshalSym, depTestSym, vendoredSym, depSym, exactSym]) =
           [\<lparr>Path = ''/home/u/go/pkg/mod/example.com/x@v1.0.0/x.go'', Score = 35,
              Reasons = [''gopls:NewHelper''], IsDep = True\<rparr>,
            \<lparr>Path = ''/home/u/proj/util/helper.go'', Score = 110,
              Reasons = [''gopls:Helper''], IsDep = False\<rparr>]"
    by code_simp
  have p: "passesFilters asciiFold ''helper'' ''/usr/local/go'' depTestSym" by code_simp
  have q: "claimedScore asciiFold ''helper'' depTestSym = - 5" by code_simp
  from symbol_score_rule [where unmarshal = decodeExample and cf = asciiFold
      and goRoot = "''/usr/local/go''", OF c d] v
  have "snd (SymbolSearch asciiFold decodeExample ''/usr/local/go'' newClient ''helper'' True
            [Some symbolAnswer]) =
       Inr [\<lparr>Path = ''/home/u/go/pkg/mod/example.com/x@v1.0.0/x.go'', Score = 35,
              Reasons = [''gopls:NewHelper''], IsDep = True\<rparr>,
            \<lparr>Path = ''/home/u/proj/util/helper.go'', Score = 110,
              Reasons = [''gopls:Helper''], IsDep = False\<rparr>]"
    by simp
  with a p q show ?thesis by blast
qed

text \<open>
  C5.  When the \<open>workspace/symbol\<close> call returns a result and the result decodes
  to \<open>symbols\<close>, the output of \<open>SymbolSearch\<close> is made of the records that the
  loop body gives for the symbols, in order.  The loop body gives a record only
  if the lower-cased query occurs as a contiguous piece of the lower-cased name;
  it gives none when the path (the URI without the \<open>file://\<close> prefix) lies under
  \<open>goRoot\<close> or contains \<open>/vendor/\<close> or \<open>/.cache/\<close>; and a record is flagged as a
  dependency exactly when its path contains \<open>/pkg/mod/\<close>.  This holds whatever the
  case mapping \<open>cf\<close> of the library does.
\<close>

theorem symbol_filters:
  assumes call: "Call c ''workspace/symbol'' (JObj [(''query'', JStr query)]) ok arrivals
                   = (c1, Inr res)"
    and dec: "unmarshal res = Some symbols"
  shows "SymbolSearch cf unmarshal goRoot c query ok arrivals =
           (c1, Inr (List.map_filter (scoreSymbol cf query goRoot) symbols))
   \<and> (scoreSymbol cf query goRoot s = Some r \<longrightarrow>
      (\<exists>before after. ToLower cf (Name s) = before @ ToLower cf query @ after)
      \<and> Path r = TrimPrefix (URI s) ''file://''
      \<and> (IsDep r \<longleftrightarrow> Contains (Path r) ''/pkg/mod/''))
   \<and> (liesUnder goRoot (symbolPath s) \<or> Contains (symbolPath s) ''/vendor/''
        \<or> Contains (symbolPath s) ''/.cache/'' \<longrightarrow> scoreSymbol cf query goRoot s = None)
   \<and> (\<not> Contains (ToLower cf (Name s)) (ToLower cf query) \<longrightarrow>
        scoreSymbol cf query goRoot s = None)"
proof (intro conjI impI)
  show "SymbolSearch cf unmarshal goRoot c query ok arrivals =
           (c1, Inr (List.map_filter (scoreSymbol cf query goRoot) symbols))"
    using SymbolSearch_decoded [where unmarshal = unmarshal, OF call dec] by (simp add: symbolLoop_map_filter)
next
  assume a: "scoreSymbol cf query goRoot s = Some r"
  then have pf: "passesFilters cf query goRoot s" and r: "r = claimedRecord cf query s"
    by (simp_all add: scoreSymbol_claimed split: if_splits)
  from pf show "\<exists>before after. ToLower cf (Name s) = before @ ToLower cf query @ after"
    by (simp add: passesFilters_def Contains_def sublist_def)
  from r show "Path r = TrimPrefix (URI s) ''file://''"
    by (simp add: claimedRecord_def symbolPath_def)
  from r show "IsDep r \<longleftrightarrow> Contains (Path r) ''/pkg/mod/''"
    by (simp add: claimedRecord_def)
next
  assume "liesUnder goRoot (symbolPath s) \<or> Contains (symbolPath s) ''/vendor/''
        \<or> Contains (symbolPath s) ''/.cache/''"
  then have "noisePath goRoot (symbolPath s)"
    using liesUnder_HasPrefix by (auto simp: noisePath_def)
  then show "scoreSymbol cf query goRoot s = None"
    by (simp add: scoreSymbol_claimed passesFilters_def)
next
  assume "\<not> Contains (ToLower cf (Name s)) (ToLower cf query)"
  then show "scoreSymbol cf query goRoot s = None"
    by (simp add: scoreSymbol_claimed passesFilters_def)
qed

text \<open>The same answer: the non-matching and the vendored symbol are dropped.\<close>

theorem symbol_filters_witness:
  "isASCII ''helper'' \<and> list_all (\<lambda>s. isASCII (Name s))
       [unmarshalSym, depTestSym, vendoredSym, depSym, exactSym]
   \<and> snd (SymbolSearch asciiFold decodeExample ''/usr/local/go'' newClient ''helper'' True
            [Some symbolAnswer]) =
       Inr (List.map_filter (scoreSymbol asciiFold ''helper'' ''/usr/local/go'')
             [unmarshalSym, depTestSym, vendoredSym, depSym, exactSym])
   \<and> scoreSymbol asciiFold ''helper'' ''/usr/local/go'' unmarshalSym = None
   \<and> scoreSymbol asciiFold ''helper'' ''/usr/local/go'' vendoredSym = None
   \<and> scoreSymbol asciiFold ''helper'' ''/usr/local/go'' depSym =
       Some \<lparr>Path = ''/home/u/go/pkg/mod/example.com/x@v1.0.0/x.go'', Score = 35,
              Reasons = [''gopls:NewHelper''], IsDep = True\<rparr>
   \<and> Contains ''/home/u/go/pkg/mod/example.com/x@v1.0.0/x.go'' ''/pkg/mod/''"
proof -
  let ?r = "\<lparr>Path = ''/home/u/go/pkg/mod/example.com/x@v1.0.0/x.go'', Score = 35,
              Reasons = [''gopls:NewHelper''], IsDep = True\<rparr>"
  have a: "isASCII ''helper'' \<and> list_all (\<lambda>s. isASCII (Name s))
       [unmarshalSym, depTestSym, vendoredSym, depSym, exactSym]" by code_simp
  obtain c1 where c: "Call newClient ''workspace/symbol'' (JObj [(''query'', JStr ''helper'')]) True
           [Some symbolAnswer] = (c1, Inr (Some symbolBody))"
    using example_call by blast
  have d: "decodeExample (Some symbolBody) =
             Some [unmarshalSym, depTestSym, vendoredSym, depSym, exactSym]"
    by (simp add: decodeExample_def)
  have v: "Contains (symbolPath vendoredSym) ''/vendor/''" by code_simp
  have u: "\<not> Contains (ToLower asciiFold (Name unmarshalSym)) (ToLower asciiFold ''helper'')"
    by code_simp
  have r: "scoreSymbol asciiFold ''helper'' ''/usr/local/go'' depSym = Some ?r" by code_simp
  note t = symbol_filters [where unmarshal = decodeExample and cf = asciiFold
      and goRoot = "''/usr/local/go''" and r = ?r, OF c d]
  from t [of unmarshalSym] u
  have 1: "scoreSymbol asciiFold ''helper'' ''/usr/local/go'' unmarshalSym = None" by blast
  from t [of vendoredSym] v
  have 2: "scoreSymbol asciiFold ''helper'' ''/usr/local/go'' vendoredSym = None" by blast
  from t [of depSym] r
  have "IsDep ?r \<longleftrightarrow> Contains (Path ?r) ''/pkg/mod/''" by blast
  then have 3: "Contains ''/home/u/go/pkg/mod/example.com/x@v1.0.0/x.go'' ''/pkg/mod/''" by simp
  from t [of depSym]
  have 4: "snd (SymbolSearch asciiFold decodeExample ''/usr/local/go'' newClient ''helper'' True
            [Some symbolAnswer]) =
       Inr (List.map_filter (scoreSymbol asciiFold ''helper'' ''/usr/local/go'')
             [unmarshalSym, depTestSym, vendoredSym, depSym, exactSym])"
    by (simp only: snd_conv)
  from a 1 2 3 4 r show ?thesis by blast
qed

section \<open>Properties of the client\<close>

lemma wfClient_new: "wfClient newClient"
  by (simp add: wfClient_def newClient_def)

lemma wfClient_handleMessage: "wfClient c \<Longrightarrow> wfClient (handleMessage c a)"
  by (auto simp: wfClient_def handleMessage_def split: option.splits if_splits)

lemma wfClient_foldl_handleMessage:
  "wfClient c \<Longrightarrow> wfClient (foldl handleMessage c arrivals)"
  by (induction arrivals arbitrary: c) (simp_all add: wfClient_handleMessage)

lemma wfClient_callBegin:
  assumes "wfClient c" and "callBegin c method params ok = (c1, r)"
  shows "wfClient c1"
  using assms
  by (fastforce simp: wfClient_def callBegin_def nextID_def writeMsg_def Let_def less_Suc_eq
      split: if_splits)

lemma wfClient_callWait:
  assumes "wfClient c" and "callWait c rid ch = (c1, r)"
  shows "wfClient c1"
  using assms
  by (auto simp: wfClient_def callWait_def split: option.splits if_splits)

lemma wfClient_Call:
  assumes "wfClient c" and "Call c method params ok arrivals = (c1, r)"
  shows "wfClient c1"
proof -
  obtain b rb where b: "callBegin c method params ok = (b, rb)"
    by (cases "callBegin c method params ok")
  from wfClient_callBegin [OF assms(1) b] have wb: "wfClient b" .
  show ?thesis
  proof (cases rb)
    case (Inl err)
    with assms(2) b wb show ?thesis by (simp add: Call_def)
  next
    case (Inr p)
    obtain rid ch where "p = (rid, ch)" by (cases p)
    with Inr assms(2) b have "callWait (foldl handleMessage b arrivals) rid ch = (c1, r)"
      by (simp add: Call_def)
    from wfClient_callWait [OF wfClient_foldl_handleMessage [OF wb] this] show ?thesis .
  qed
qed

lemma handleMessage_other:
  assumes "pending c rid = Some ch" and "mailbox c ch = None"
    and "\<forall>i. i \<noteq> rid \<longrightarrow> pending c i \<noteq> Some ch"
    and "\<forall>resp. a = Some resp \<longrightarrow> ID resp \<noteq> rid"
  shows "pending (handleMessage c a) rid = Some ch \<and> mailbox (handleMessage c a) ch = None
         \<and> (\<forall>i. i \<noteq> rid \<longrightarrow> pending (handleMessage c a) i \<noteq> Some ch)"
  using assms by (auto simp: handleMessage_def split: option.splits)

lemma foldl_handleMessage_other:
  assumes "pending c rid = Some ch" and "mailbox c ch = None"
    and "\<forall>i. i \<noteq> rid \<longrightarrow> pending c i \<noteq> Some ch"
    and "\<forall>a \<in> set arrivals. \<forall>resp. a = Some resp \<longrightarrow> ID resp \<noteq> rid"
  shows "pending (foldl handleMessage c arrivals) rid = Some ch
         \<and> mailbox (foldl handleMessage c arrivals) ch = None"
  using assms
proof (induction arrivals arbitrary: c)
  case Nil
  then show ?case by simp
next
  case (Cons a arrivals)
  have "\<forall>resp. a = Some resp \<longrightarrow> ID resp \<noteq> rid" using Cons.prems(4) by simp
  from handleMessage_other [OF Cons.prems(1-3) this] Cons.prems(4)
  show ?case using Cons.IH [of "handleMessage c a"] by simp
qed

lemma callBegin_ok:
  assumes "wfClient c"
  shows "\<exists>c1. callBegin c method params True = (c1, Inr (seq c + 1, nchan c))
          \<and> pending c1 (seq c + 1) = Some (nchan c) \<and> mailbox c1 (nchan c) = None
          \<and> (\<forall>i. i \<noteq> seq c + 1 \<longrightarrow> pending c1 i \<noteq> Some (nchan c))
          \<and> seq c1 = seq c + 1
          \<and> wire c1 = wire c @ [Request (seq c + 1) method params]"
  using assms
  by (fastforce simp: callBegin_def nextID_def writeMsg_def wfClient_def Let_def)

lemma handleMessage_unmatched:
  "pending c (ID resp) = None \<Longrightarrow> handleMessage c (Some resp) = c"
  by (simp add: handleMessage_def)

text \<open>
  A response with the identifier 0 is ignored, and a response that carries the
  identifier of a waiting call, other than 0, is delivered to it.
\<close>

lemma handleMessage_zero: "ID resp = 0 \<Longrightarrow> handleMessage c (Some resp) = c"
  by (simp add: handleMessage_def)

lemma call_answered:
  assumes wf: "wfClient c" and nz: "seq c + 1 \<noteq> 0" and rid: "ID resp = seq c + 1"
  shows "snd (Call c method params True [Some resp]) = Inr (Result resp)"
proof -
  from callBegin_ok [OF wf] obtain c1 where
    b: "callBegin c method params True = (c1, Inr (seq c + 1, nchan c))"
    and p: "pending c1 (seq c + 1) = Some (nchan c)"
    by blast
  from p nz rid have "mailbox (handleMessage c1 (Some resp)) (nchan c) = Some (Result resp)"
    by (simp add: handleMessage_def)
  then show ?thesis
    by (simp add: Call_def b callWait_def)
qed

lemma call_write_error_evicts:
  assumes "Call c method params False arrivals = (c', res)"
  shows "res = Inl WriteError \<and> pending c' (seq c + 1) = None \<and> wire c' = wire c"
  using assms
  by (auto simp: Call_def callBegin_def nextID_def writeMsg_def Let_def)

text \<open>
  C1.  A call whose request was written and whose response never arrives (no
  message handled while it waits carries its identifier) takes the timeout case of
  the \<open>select\<close>: it fails with the timeout error, the registry then has no entry
  for its identifier, and handling a response with that identifier afterwards
  leaves the client as it is: nothing is resolved, nothing fails.
\<close>

theorem call_timeout_evicts:
  assumes wf: "wfClient c"
    and never: "\<forall>a \<in> set arrivals. \<forall>resp. a = Some resp \<longrightarrow> ID resp \<noteq> seq c + 1"
    and call: "Call c method params True arrivals = (c', res)"
  shows "res = Inl Timeout
         \<and> pending c' (seq c + 1) = None
         \<and> (\<forall>late. ID late = seq c + 1 \<longrightarrow> handleMessage c' (Some late) = c')"
proof -
  from callBegin_ok [OF wf] obtain c1 where
    b: "callBegin c method params True = (c1, Inr (seq c + 1, nchan c))"
    and p: "pending c1 (seq c + 1) = Some (nchan c)"
    and m: "mailbox c1 (nchan c) = None"
    and o: "\<forall>i. i \<noteq> seq c + 1 \<longrightarrow> pending c1 i \<noteq> Some (nchan c)"
    by blast
  let ?c2 = "foldl handleMessage c1 arrivals"
  from foldl_handleMessage_other [OF p m o never]
  have m2: "mailbox ?c2 (nchan c) = None" by simp
  from call b have w: "callWait ?c2 (seq c + 1) (nchan c) = (c', res)"
    by (simp add: Call_def)
  with m2 have res: "res = Inl Timeout"
    and c': "c' = ?c2\<lparr>pending := (pending ?c2)(seq c + 1 := None)\<rparr>"
    by (auto simp: callWait_def)
  from c' have gone: "pending c' (seq c + 1) = None" by simp
  have "\<forall>late. ID late = seq c + 1 \<longrightarrow> handleMessage c' (Some late) = c'"
    using gone by (simp add: handleMessage_unmatched)
  with res gone show ?thesis by blast
qed

theorem call_timeout_evicts_witness:
  "snd (Call newClient ''workspace/symbol'' (JObj []) True [None, Some otherResp]) = Inl Timeout
   \<and> pending (fst (Call newClient ''workspace/symbol'' (JObj []) True [None, Some otherResp])) 1 = None
   \<and> handleMessage (fst (Call newClient ''workspace/symbol'' (JObj []) True [None, Some otherResp])) (Some lateResp)
       = fst (Call newClient ''workspace/symbol'' (JObj []) True [None, Some otherResp])"
proof -
  have s: "seq newClient + 1 = 1" by (simp add: newClient_def)
  have n: "\<forall>a \<in> set [None, Some otherResp]. \<forall>resp. a = Some resp \<longrightarrow> ID resp \<noteq> seq newClient + 1"
    by (simp add: otherResp_def newClient_def)
  have l: "ID lateResp = seq newClient + 1" by (simp add: lateResp_def newClient_def)
  obtain c' res where c: "Call newClient ''workspace/symbol'' (JObj []) True [None, Some otherResp] = (c', res)"
    by (cases "Call newClient ''workspace/symbol'' (JObj []) True [None, Some otherResp]")
  from call_timeout_evicts [OF wfClient_new n c] l s show ?thesis
    by (simp add: c)
qed

lemma allocIDs_eq: "allocIDs n c = map (\<lambda>k. seq c + of_nat k) [1..<Suc n]"
proof (induction n arbitrary: c)
  case 0
  then show ?case by simp
next
  case (Suc n)
  have "allocIDs (Suc n) c = (seq c + 1) # allocIDs n (c\<lparr>seq := seq c + 1\<rparr>)"
    by (simp add: nextID_def)
  also have "allocIDs n (c\<lparr>seq := seq c + 1\<rparr>) = map (\<lambda>k. seq c + 1 + of_nat k) [1..<Suc n]"
    by (simp add: Suc.IH)
  also have "\<dots> = map (\<lambda>k. seq c + of_nat k) (map Suc [1..<Suc n])"
    by (simp add: add.assoc add.commute)
  also have "map Suc [1..<Suc n] = [2..<Suc (Suc n)]"
    by (simp add: map_Suc_upt numeral_2_eq_2)
  finally have "allocIDs (Suc n) c = map (\<lambda>k. seq c + of_nat k) (1 # [2..<Suc (Suc n)])"
    by simp
  also have "1 # [2..<Suc (Suc n)] = [1..<Suc (Suc n)]"
    by (simp add: upt_rec numeral_2_eq_2)
  finally show ?case .
qed

lemma allocIDs_new: "allocIDs n newClient = map of_nat [1..<Suc n]"
  by (simp add: allocIDs_eq newClient_def)

lemma sint_of_nat_small:
  assumes "k < 2 ^ 63"
  shows "sint (of_nat k :: int64) = int k"
proof -
  have "sint (of_nat k :: int64) = signed_take_bit 63 (int k)"
    by (simp add: signed_of_nat)
  also have "\<dots> = int k"
  proof (rule signed_take_bit_int_eq_self)
    show "- (2 ^ 63) \<le> int k" by simp
    show "int k < 2 ^ 63" using assms by simp
  qed
  finally show ?thesis .
qed

text \<open>
  C7.  The counter \<open>seq\<close> is a 64-bit signed integer that starts at 0 and is
  incremented for every call.  For fewer than \<open>2 ^ 63\<close> allocations in the life
  of a client the identifiers are 1, 2, 3, ...: strictly increasing, at least 1
  and never 0.
\<close>

theorem ids_increasing_until_wrap:
  assumes "n < 2 ^ 63"
  shows "map sint (allocIDs n newClient) = map int [1..<Suc n]
         \<and> sorted_wrt (<) (map sint (allocIDs n newClient))
         \<and> (\<forall>i \<in> set (allocIDs n newClient). 1 \<le> sint i \<and> i \<noteq> 0)"
proof -
  have m: "map sint (allocIDs n newClient) = map int [1..<Suc n]"
  proof -
    have "\<forall>k \<in> set [1..<Suc n]. sint (of_nat k :: int64) = int k"
      using assms by (auto intro!: sint_of_nat_small)
    then show ?thesis by (simp add: allocIDs_new)
  qed
  have s: "sorted_wrt (<) (map int [1..<Suc n])"
    unfolding sorted_wrt_map by (rule sorted_wrt_mono_rel [OF _ sorted_wrt_upt]) simp
  have "\<forall>i \<in> set (allocIDs n newClient). 1 \<le> sint i"
  proof
    fix i assume "i \<in> set (allocIDs n newClient)"
    then have "sint i \<in> set (map sint (allocIDs n newClient))" by simp
    then show "1 \<le> sint i" unfolding m by auto
  qed
  then have "\<forall>i \<in> set (allocIDs n newClient). 1 \<le> sint i \<and> i \<noteq> 0" by auto
  with m s show ?thesis by simp
qed

theorem ids_increasing_until_wrap_witness:
  "(3::nat) < 2 ^ 63 \<and> allocIDs 3 newClient = [1, 2, 3]
   \<and> map sint (allocIDs 3 newClient) = [1, 2, 3]"
proof -
  have h: "(3::nat) < 2 ^ 63" by simp
  have e: "map int [1..<Suc 3] = [1, 2, 3]" by code_simp
  have a: "allocIDs 3 newClient = [1, 2, 3]" by code_simp
  from ids_increasing_until_wrap [OF h] e a h show ?thesis by simp
qed

text \<open>
  The bound is needed: allocation number \<open>2 ^ 63\<close> wraps around to the least
  64-bit integer, below all earlier identifiers, and allocation number \<open>2 ^ 64\<close>
  hands out the identifier 0.
\<close>

theorem ids_wrap_counterexample:
  "\<not> sorted_wrt (<) (map sint (allocIDs (2 ^ 63) newClient))
   \<and> 0 \<in> set (allocIDs (2 ^ 64) newClient)"
proof
  let ?ids = "map sint (allocIDs (2 ^ 63) newClient)"
  have len: "length ?ids = 2 ^ 63" by (simp add: allocIDs_new)
  have n1: "?ids ! (2 ^ 63 - 2) = 2 ^ 63 - 1"
  proof -
    have "?ids ! (2 ^ 63 - 2) = sint (of_nat (2 ^ 63 - 1) :: int64)"
      by (simp add: allocIDs_new)
    then show ?thesis by simp
  qed
  have n2: "?ids ! (2 ^ 63 - 1) = - (2 ^ 63)"
  proof -
    have "?ids ! (2 ^ 63 - 1) = sint (of_nat (2 ^ 63) :: int64)"
      by (simp add: allocIDs_new)
    then show ?thesis by simp
  qed
  show "\<not> sorted_wrt (<) ?ids"
  proof
    assume "sorted_wrt (<) ?ids"
    then have "?ids ! (2 ^ 63 - 2) < ?ids ! (2 ^ 63 - 1)"
      using len by (simp add: sorted_wrt_iff_nth_less)
    with n1 n2 show False by simp
  qed
  have "(2 ^ 64 :: nat) \<in> set [1..<Suc (2 ^ 64)]" by simp
  then have "(of_nat (2 ^ 64) :: int64) \<in> of_nat ` set [1..<Suc (2 ^ 64)]"
    by (rule imageI)
  then have "(of_nat (2 ^ 64) :: int64) \<in> set (map of_nat [1..<Suc (2 ^ 64)])"
    by (simp only: set_map)
  moreover have "(of_nat (2 ^ 64) :: int64) = 0" by simp
  ultimately have "(0 :: int64) \<in> set (map of_nat [1..<Suc (2 ^ 64)])"
    by (simp only:)
  then show "0 \<in> set (allocIDs (2 ^ 64) newClient)"
    by (simp only: allocIDs_new)
qed

subsection \<open>Startup handshake\<close>

lemma wire_handleMessage: "wire (handleMessage c a) = wire c"
  by (simp add: handleMessage_def split: option.splits)

lemma wire_foldl_handleMessage: "wire (foldl handleMessage c arrivals) = wire c"
  by (induction arrivals arbitrary: c) (simp_all add: wire_handleMessage)

lemma wire_callWait: "callWait c rid ch = (c', res) \<Longrightarrow> wire c' = wire c"
  by (auto simp: callWait_def split: option.splits)

lemma callBegin_wire:
  assumes "callBegin c method params ok = (c1, r)"
  shows "wire c1 = (if ok then wire c @ [Request (seq c + 1) method params] else wire c)
         \<and> (ok \<longleftrightarrow> (\<exists>ch. r = Inr (seq c + 1, ch)))"
  using assms
  by (auto simp: callBegin_def nextID_def writeMsg_def Let_def split: if_splits)

lemma Call_wire:
  assumes "Call c method params ok arrivals = (c1, res)"
  shows "wire c1 = (if ok then wire c @ [Request (seq c + 1) method params] else wire c)"
proof -
  obtain b r where b: "callBegin c method params ok = (b, r)"
    by (cases "callBegin c method params ok")
  note w = callBegin_wire [OF b]
  show ?thesis
  proof (cases r)
    case (Inl err)
    with assms b have "c1 = b" by (simp add: Call_def)
    with w Inl show ?thesis by auto
  next
    case (Inr p)
    then obtain rid ch where p: "r = Inr (rid, ch)" by (cases p) auto
    with assms b have "callWait (foldl handleMessage b arrivals) rid ch = (c1, res)"
      by (simp add: Call_def)
    from wire_callWait [OF this] have "wire c1 = wire b"
      by (simp add: wire_foldl_handleMessage)
    with w show ?thesis by simp
  qed
qed

text \<open>
  C8.  When \<open>gopls\<close> is found and starts, startup makes one call with method
  \<open>initialize\<close>, identifier 1 and the parameters \<open>processId\<close>, \<open>rootUri\<close>
  (\<open>file://\<close> followed by the root path) and empty \<open>capabilities\<close>.  The
  notification \<open>initialized\<close> with empty parameters is sent after it exactly when
  that call returned without an error (and is on the wire when its write succeeds).
  \<open>GoplsInstance\<close> is set exactly when the call returned a result that is not
  \<open>nil\<close>.
\<close>

theorem init_handshake:
  assumes "lookPathOk env" and "startOk env"
    and call: "Call newClient ''initialize'' (initParams (pid env) rootPath)
                 (callWriteOk env) (initArrivals env) = (c1, res)"
  shows "wire c1 =
           (if callWriteOk env
            then [Request 1 ''initialize''
                    (JObj [(''processId'', JNum (pid env)),
                           (''rootUri'', JStr (''file://'' @ rootPath)),
                           (''capabilities'', JObj [])])]
            else [])
         \<and> snd (InitGopls env rootPath) =
             wire c1 @ (if callOk res \<and> notifyWriteOk env
                        then [Notification ''initialized'' (JObj [])] else [])
         \<and> (fst (InitGopls env rootPath) \<noteq> None \<longleftrightarrow> (\<exists>raw. res = Inr (Some raw)))"
proof (intro conjI)
  from Call_wire [OF call]
  show "wire c1 =
           (if callWriteOk env
            then [Request 1 ''initialize''
                    (JObj [(''processId'', JNum (pid env)),
                           (''rootUri'', JStr (''file://'' @ rootPath)),
                           (''capabilities'', JObj [])])]
            else [])"
    by (simp add: newClient_def initParams_def)
  show "snd (InitGopls env rootPath) =
             wire c1 @ (if callOk res \<and> notifyWriteOk env
                        then [Notification ''initialized'' (JObj [])] else [])"
    using assms
    by (cases res) (simp_all add: InitGopls_def callOk_def Notify_def writeMsg_def)
  show "fst (InitGopls env rootPath) \<noteq> None \<longleftrightarrow> (\<exists>raw. res = Inr (Some raw))"
    using assms
    by (cases res) (auto simp: InitGopls_def Notify_def writeMsg_def)
qed

theorem init_handshake_witness:
  "InitGopls envAnswered ''/home/u/proj'' =
     (fst (InitGopls envAnswered ''/home/u/proj''),
      [Request 1 ''initialize''
         (JObj [(''processId'', JNum 4242), (''rootUri'', JStr ''file:///home/u/proj''),
                (''capabilities'', JObj [])]),
       Notification ''initialized'' (JObj [])])
   \<and> fst (InitGopls envAnswered ''/home/u/proj'') \<noteq> None"
proof -
  have l: "lookPathOk envAnswered" and s: "startOk envAnswered"
    by (simp_all add: envAnswered_def)
  obtain c1 where c: "Call newClient ''initialize'' (initParams (pid envAnswered) ''/home/u/proj'')
                 (callWriteOk envAnswered) (initArrivals envAnswered) = (c1, Inr (Some ''{}''))"
    by (simp add: Call_def callBegin_def nextID_def writeMsg_def newClient_def envAnswered_def
        callWait_def handleMessage_def Let_def)
  from init_handshake [OF l s c] show ?thesis
    by (simp add: envAnswered_def callOk_def prod_eq_iff)
qed

text \<open>
  When the call fails, \<open>InitGopls\<close> returns before \<open>Notify\<close>: with no answer
  to \<open>initialize\<close> only the request is written.
\<close>

theorem init_timeout_counterexample:
  "InitGopls envSilent ''/home/u/proj'' =
     (None,
      [Request 1 ''initialize''
         (JObj [(''processId'', JNum 4242), (''rootUri'', JStr ''file:///home/u/proj''),
                (''capabilities'', JObj [])])])
   \<and> Notification ''initialized'' (JObj []) \<notin> set (snd (InitGopls envSilent ''/home/u/proj''))"
  by (simp add: InitGopls_def Call_def callBegin_def nextID_def writeMsg_def newClient_def
      envSilent_def callWait_def Let_def initParams_def)

section \<open>Properties of the search orchestrator\<close>

lemma mset_insertBack: "mset (insertBack lt x ys) = add_mset x (mset ys)"
  by (induction ys) auto

lemma mset_foldl_insertBack:
  "mset (foldl (\<lambda>front x. insertBack lt x front) acc xs) = mset acc + mset xs"
  by (induction xs arbitrary: acc) (auto simp: mset_insertBack)

lemma mset_insertionSort: "mset (insertionSort lt xs) = mset xs"
  by (simp add: insertionSort_def mset_foldl_insertBack)

lemma set_insertBack: "set (insertBack lt x ys) = insert x (set ys)"
  by (induction ys) auto

lemma sorted_insertBack:
  assumes "sorted_wrt (\<lambda>a b. Score a \<le> Score b) ys"
  shows "sorted_wrt (\<lambda>a b. Score a \<le> Score b) (insertBack scoreGreater x ys)"
  using assms
  by (induction ys) (auto simp: scoreGreater_def set_insertBack)

lemma sorted_foldl_insertBack:
  assumes "sorted_wrt (\<lambda>a b. Score a \<le> Score b) acc"
  shows "sorted_wrt (\<lambda>a b. Score a \<le> Score b)
           (foldl (\<lambda>front x. insertBack scoreGreater x front) acc xs)"
  using assms
  by (induction xs arbitrary: acc) (auto simp: sorted_insertBack)

lemma sorted_insertionSort:
  "sorted_wrt (\<lambda>a b. \<not> scoreGreater b a) (insertionSort scoreGreater xs)"
proof -
  have "sorted_wrt (\<lambda>a b. Score a \<le> Score b)
           (foldl (\<lambda>front x. insertBack scoreGreater x front) [] xs)"
    by (rule sorted_foldl_insertBack) simp
  then have "sorted_wrt (\<lambda>a b. Score b \<le> Score a) (insertionSort scoreGreater xs)"
    by (simp add: insertionSort_def sorted_wrt_rev)
  then show ?thesis by (simp add: scoreGreater_def not_less)
qed

lemma insertionSort_contract: "sortSliceContract insertionSort"
  by (simp add: sortSliceContract_def mset_insertionSort sorted_insertionSort)

lemma Search_eq:
  "Search sortSlice sched absRoot localRes goplsRes =
     Inr (take 50 (sortSlice scoreGreater (collect sched absRoot localRes goplsRes)))"
  by (simp add: Search_def Let_def)

lemma collect_remote_failed:
  assumes "goplsRes = None \<or> (\<exists>err. goplsRes = Some (Inl err))"
  shows "collect sched absRoot localRes goplsRes = localRes"
  using assms
  by (cases sched) (auto simp: collect_def remoteBranch_def localBranch_def)

lemma contract_Nil: "sortSliceContract sortSlice \<Longrightarrow> sortSlice scoreGreater [] = []"
  unfolding sortSliceContract_def
  by (metis mset_zero_iff)

text \<open>
  C9.  \<open>Search\<close> always returns a result and never an error.  When the remote
  branch is absent or fails (\<open>GoplsInstance\<close> is \<open>nil\<close>, or \<open>SymbolSearch\<close>
  returns an error: a timeout, a write error, a decoding error) the result is
  built from the local records alone; when neither branch produces a record the
  result is the empty list, returned as a success.
\<close>

theorem search_never_fails:
  "(\<exists>results. Search sortSlice sched absRoot localRes goplsRes = Inr results)
   \<and> (remoteFailed goplsRes \<longrightarrow>
        Search sortSlice sched absRoot localRes goplsRes =
          Inr (take 50 (sortSlice scoreGreater localRes)))
   \<and> (sortSliceContract sortSlice \<and> (remoteFailed goplsRes \<or> goplsRes = Some (Inr [])) \<longrightarrow>
        Search sortSlice sched absRoot [] goplsRes = Inr [])"
proof (intro conjI impI)
  show "\<exists>results. Search sortSlice sched absRoot localRes goplsRes = Inr results"
    by (simp add: Search_eq)
next
  assume "remoteFailed goplsRes"
  then have "goplsRes = None \<or> (\<exists>err. goplsRes = Some (Inl err))"
    by (auto simp: remoteFailed_def split: option.splits sum.splits)
  then show "Search sortSlice sched absRoot localRes goplsRes =
          Inr (take 50 (sortSlice scoreGreater localRes))"
    by (simp add: Search_eq collect_remote_failed)
next
  assume a: "sortSliceContract sortSlice \<and> (remoteFailed goplsRes \<or> goplsRes = Some (Inr []))"
  then have "collect sched absRoot [] goplsRes = []"
    by (cases sched)
      (auto simp: collect_def remoteBranch_def localBranch_def remoteFailed_def
        split: option.splits sum.splits)
  with a show "Search sortSlice sched absRoot [] goplsRes = Inr []"
    by (simp add: Search_eq contract_Nil)
qed

theorem search_never_fails_witness:
  "remoteFailed (Some (Inl Timeout))
   \<and> Search insertionSort LocalFirst ''/home/u/proj'' localOnly (Some (Inl Timeout)) =
       Inr [\<lparr>Path = ''auth/login.go'', Score = 575, Reasons = [''exact-file''], IsDep = False\<rparr>,
            \<lparr>Path = ''auth/service.go'', Score = 65, Reasons = [''func:Login''], IsDep = False\<rparr>]
   \<and> sortSliceContract insertionSort
   \<and> Search insertionSort RemoteFirst ''/home/u/proj'' [] None = Inr []"
proof -
  have f: "remoteFailed (Some (Inl Timeout))" and n: "remoteFailed None"
    by (simp_all add: remoteFailed_def)
  have s: "take 50 (insertionSort scoreGreater localOnly) =
       [\<lparr>Path = ''auth/login.go'', Score = 575, Reasons = [''exact-file''], IsDep = False\<rparr>,
        \<lparr>Path = ''auth/service.go'', Score = 65, Reasons = [''func:Login''], IsDep = False\<rparr>]"
    by code_simp
  from search_never_fails [of insertionSort LocalFirst "''/home/u/proj''" localOnly "Some (Inl Timeout)"]
    f s
  have a: "Search insertionSort LocalFirst ''/home/u/proj'' localOnly (Some (Inl Timeout)) =
       Inr [\<lparr>Path = ''auth/login.go'', Score = 575, Reasons = [''exact-file''], IsDep = False\<rparr>,
            \<lparr>Path = ''auth/service.go'', Score = 65, Reasons = [''func:Login''], IsDep = False\<rparr>]"
    by simp
  from search_never_fails [of insertionSort RemoteFirst "''/home/u/proj''" "[]" None]
    n insertionSort_contract
  have b: "Search insertionSort RemoteFirst ''/home/u/proj'' [] None = Inr []"
    by blast
  from f a b insertionSort_contract show ?thesis by simp
qed

lemma SymbolSearch_failure:
  "(\<exists>err. snd (SymbolSearch cf unmarshal goRoot c query ok arrivals) = Inl err) \<longleftrightarrow>
     (case snd (Call c ''workspace/symbol'' (JObj [(''query'', JStr query)]) ok arrivals) of
        Inl err \<Rightarrow> True
      | Inr res \<Rightarrow> unmarshal res = None)"
  by (auto simp: SymbolSearch_def split: prod.splits sum.splits option.splits)

lemma mset_take_subset: "mset (take n xs) \<subseteq># mset xs"
proof -
  have "mset xs = mset (take n xs) + mset (drop n xs)"
    by (simp flip: mset_append)
  then show ?thesis by simp
qed

lemma contract_scores:
  assumes "sortSliceContract sortSlice"
  shows "map Score (sortSlice scoreGreater xs) = map Score (stableSortDesc xs)"
proof -
  let ?f = "\<lambda>r. - Score r"
  from assms have m: "mset (sortSlice scoreGreater xs) = mset xs"
    and s: "sorted_wrt (\<lambda>a b. \<not> scoreGreater b a) (sortSlice scoreGreater xs)"
    by (simp_all add: sortSliceContract_def)
  from s have "sorted_wrt (\<lambda>a b. ?f a \<le> ?f b) (sortSlice scoreGreater xs)"
    by (simp add: scoreGreater_def not_less)
  then have s1: "sorted (map ?f (sortSlice scoreGreater xs))"
    by (simp add: sorted_wrt_map)
  have m1: "mset (map ?f (sortSlice scoreGreater xs)) = mset (map ?f xs)"
    using m by (metis mset_map)
  have s2: "sorted (map ?f (stableSortDesc xs))"
    by (simp add: stableSortDesc_def sorted_sort_key)
  have m2: "mset (map ?f (stableSortDesc xs)) = mset (map ?f xs)"
    by (simp add: stableSortDesc_def)
  from properties_for_sort [OF m1 s1] properties_for_sort [OF m2 s2]
  have "map ?f (sortSlice scoreGreater xs) = map ?f (stableSortDesc xs)" by simp
  then have "map uminus (map ?f (sortSlice scoreGreater xs)) = map uminus (map ?f (stableSortDesc xs))"
    by simp
  then show ?thesis by (simp add: comp_def)
qed

text \<open>
  C3.  With \<open>sort.Slice\<close> meeting its contract, \<open>Search\<close> returns the first
  50 records (all of them when there are fewer) of the merged collection sorted
  by descending score: the scores are non-increasing, at most 50 records come
  back, each of them is a record of the merged collection, and the sequence of
  scores is the one a stable sort followed by the truncation gives.  The order
  of records with equal scores is whatever \<open>sort.Slice\<close> leaves.
\<close>

theorem search_sorted_truncated:
  assumes c: "sortSliceContract sortSlice"
    and s: "Search sortSlice sched absRoot localRes goplsRes = Inr out"
  shows "out = take 50 (sortSlice scoreGreater (collect sched absRoot localRes goplsRes))
         \<and> sorted_wrt (\<lambda>a b. Score a \<ge> Score b) out
         \<and> length out = min 50 (length (collect sched absRoot localRes goplsRes))
         \<and> mset out \<subseteq># mset (collect sched absRoot localRes goplsRes)
         \<and> map Score out =
             map Score (take 50 (stableSortDesc (collect sched absRoot localRes goplsRes)))"
proof -
  let ?m = "collect sched absRoot localRes goplsRes"
  from s have o: "out = take 50 (sortSlice scoreGreater ?m)" by (simp add: Search_eq)
  from c have m: "mset (sortSlice scoreGreater ?m) = mset ?m"
    and sd: "sorted_wrt (\<lambda>a b. \<not> scoreGreater b a) (sortSlice scoreGreater ?m)"
    by (simp_all add: sortSliceContract_def)
  from sd have "sorted_wrt (\<lambda>a b. Score a \<ge> Score b) (sortSlice scoreGreater ?m)"
    by (simp add: scoreGreater_def not_less)
  then have 1: "sorted_wrt (\<lambda>a b. Score a \<ge> Score b) out"
    unfolding o by (rule sorted_wrt_take)
  from m have "length (sortSlice scoreGreater ?m) = length ?m"
    by (rule mset_eq_length)
  then have 2: "length out = min 50 (length ?m)" by (simp add: o min.commute)
  have 3: "mset out \<subseteq># mset ?m"
    unfolding o using mset_take_subset [of 50 "sortSlice scoreGreater ?m"] m by simp
  have 4: "map Score out = map Score (take 50 (stableSortDesc ?m))"
    by (simp add: o contract_scores [OF c] flip: take_map)
  from o 1 2 3 4 show ?thesis by blast
qed

theorem search_sorted_truncated_witness:
  "sortSliceContract insertionSort
   \<and> Search insertionSort LocalFirst ''/home/u/proj'' [low, tieA, tieB] None = Inr [tieA, tieB, low]
   \<and> map Score [tieA, tieB, low] = [90, 90, 50]"
proof -
  have s: "Search insertionSort LocalFirst ''/home/u/proj'' [low, tieA, tieB] None = Inr [tieA, tieB, low]"
    by code_simp
  have v: "map Score (take 50 (stableSortDesc (collect LocalFirst ''/home/u/proj'' [low, tieA, tieB] None)))
            = [90, 90, 50]"
    by code_simp
  from search_sorted_truncated [OF insertionSort_contract s]
  have "map Score [tieA, tieB, low] =
          map Score (take 50 (stableSortDesc (collect LocalFirst ''/home/u/proj'' [low, tieA, tieB] None)))"
    by blast
  with v have "map Score [tieA, tieB, low] = [90, 90, 50]" by simp
  with s insertionSort_contract show ?thesis by simp
qed

text \<open>
  The code calls \<open>sort.Slice\<close>, not \<open>sort.SliceStable\<close>, and the merged
  collection is sorted by the score alone.  On thirteen records, the first of
  score 50 and the other twelve of score 90, \<open>sort.Slice\<close> chooses the record at
  index 6 as pivot and swaps it to the front; the partition leaves it there, and
  the insertion sort of the remaining twelve moves the record of score 50 to the
  end.  So \<open>f.go\<close> comes back before \<open>a.go\<close>, which preceded it in the merged
  collection and has the same score; the stable sort keeps the twelve in their
  order.
\<close>

theorem unstable_sort_counterexample:
  "Search Slice LocalFirst ''/home/u/proj'' thirteen None =
     Inr (map tied [''f.go'', ''a.go'', ''b.go'', ''c.go'', ''d.go'', ''e.go'',
                    ''g.go'', ''h.go'', ''i.go'', ''j.go'', ''k.go'', ''l.go''] @ [low])
   \<and> take 50 (stableSortDesc (collect LocalFirst ''/home/u/proj'' thirteen None)) =
       map tied [''a.go'', ''b.go'', ''c.go'', ''d.go'', ''e.go'', ''f.go'',
                 ''g.go'', ''h.go'', ''i.go'', ''j.go'', ''k.go'', ''l.go''] @ [low]
   \<and> collect LocalFirst ''/home/u/proj'' thirteen None = thirteen
   \<and> Score (tied ''a.go'') = Score (tied ''f.go'')"
proof -
  have "Search Slice LocalFirst ''/home/u/proj'' thirteen None =
     Inr (map tied [''f.go'', ''a.go'', ''b.go'', ''c.go'', ''d.go'', ''e.go'',
                    ''g.go'', ''h.go'', ''i.go'', ''j.go'', ''k.go'', ''l.go''] @ [low])"
    by code_simp
  moreover have "take 50 (stableSortDesc (collect LocalFirst ''/home/u/proj'' thirteen None)) =
       map tied [''a.go'', ''b.go'', ''c.go'', ''d.go'', ''e.go'', ''f.go'',
                 ''g.go'', ''h.go'', ''i.go'', ''j.go'', ''k.go'', ''l.go''] @ [low]"
    by code_simp
  moreover have "collect LocalFirst ''/home/u/proj'' thirteen None = thirteen"
    by code_simp
  moreover have "Score (tied ''a.go'') = Score (tied ''f.go'')"
    by (simp add: tied_def)
  ultimately show ?thesis by simp
qed

text \<open>
  The steps of that run: the recursion budget is 4, the pivot is the record at
  index 6 and no candidate was exchanged, the partial insertion sort gives up on
  a range of fewer than 50 elements, the partition returns the position 0 with
  the range already partitioned, and what remains is the insertion sort of the
  twelve records from index 1 on.  The run reaches neither
  \<open>breakPatterns_func\<close> nor \<open>heapSort_func\<close> nor \<open>partitionEqual_func\<close>.
\<close>

lemma Slice_thirteen_trace:
  "bitsLen (length thirteen) = 4
   \<and> choosePivot_func scoreGreater thirteen 0 13 = (6, increasingHint)
   \<and> partialInsertionSort_func scoreGreater thirteen 0 13 = (thirteen, False)
   \<and> partition_func scoreGreater thirteen 0 13 6 = (Swap thirteen 0 6, 0, True)
   \<and> Slice scoreGreater thirteen = insertionSort_func scoreGreater (Swap thirteen 0 6) 1 13"
  by code_simp

text \<open>
  On a slice of at most twelve elements \<open>sort.Slice\<close> is \<open>insertionSort_func\<close>,
  which computes what the insertion sort on lists computes.
\<close>

lemma Less_adjacent: "Less lt (p @ y # x # r) (Suc (length p)) (length p) = lt x y"
  by (simp add: Less_def nth_append)

lemma Swap_adjacent: "Swap (p @ y # x # r) (Suc (length p)) (length p) = p @ x # y # r"
  by (simp add: Swap_def nth_append list_update_append)

lemma insertionInner_insertBack:
  "insertionInner lt (rev front @ x # rest) 0 (length front) = rev (insertBack lt x front) @ rest"
proof (induction front arbitrary: rest)
  case Nil
  show ?case by simp
next
  case (Cons y f)
  have "insertionInner lt (rev f @ y # x # rest) 0 (Suc (length (rev f))) =
          (if lt x y then insertionInner lt (rev f @ x # y # rest) 0 (length (rev f))
           else rev f @ y # x # rest)"
    by (simp only: insertionInner.simps Less_adjacent Swap_adjacent) simp
  with Cons.IH [of "y # rest"] show ?case by simp
qed

lemma length_insertBack: "length (insertBack lt x ys) = Suc (length ys)"
  by (induction ys) auto

lemma insertionOuter_foldl:
  "insertionOuter lt (rev front @ rest) 0 (length front + length rest) (length front) =
     rev (foldl (\<lambda>front x. insertBack lt x front) front rest)"
proof (induction rest arbitrary: front)
  case Nil
  show ?case by (subst insertionOuter.simps) simp
next
  case (Cons x r)
  from Cons.IH [of "insertBack lt x front"] show ?case
    by (subst insertionOuter.simps) (simp add: insertionInner_insertBack length_insertBack)
qed

lemma insertionSort_func_insertionSort:
  "insertionSort_func lt xs 0 (length xs) = insertionSort lt xs"
proof (cases xs)
  case Nil
  then show ?thesis
    by (simp add: insertionSort_func_def insertionSort_def insertionOuter.simps)
next
  case (Cons x r)
  with insertionOuter_foldl [of lt "[x]" r] show ?thesis
    by (simp add: insertionSort_func_def insertionSort_def)
qed

lemma Slice_short:
  assumes "length xs \<le> 12"
  shows "Slice lt xs = insertionSort lt xs"
  using assms
  by (simp add: Slice_def pdqsort_func.simps [of lt xs 0] insertionSort_func_insertionSort)

lemma isDup_iff: "isDup absRoot results gr \<longleftrightarrow> (\<exists>e \<in> set results. existingAbs absRoot e = Path gr)"
  by (simp add: isDup_def list_ex_iff)

lemma roundTrips_noAlias: "roundTrips absRoot goplsRes \<Longrightarrow> noAlias absRoot p goplsRes"
  by (auto simp: roundTrips_def noAlias_def resolvesTo_def list_all_iff)

lemma mergeGopls_keeps:
  assumes "filter (resolvesTo absRoot p) results = [l]"
    and "noAlias absRoot p goplsRes"
  shows "filter (resolvesTo absRoot p) (mergeGopls absRoot results goplsRes) = [l]"
  using assms
proof (induction goplsRes arbitrary: results)
  case Nil
  then show ?case by simp
next
  case (Cons gr goplsRes)
  from Cons.prems(2)
  have rt: "resolvesTo absRoot p (relativize absRoot gr) \<longrightarrow> Path gr = p"
    and rest: "noAlias absRoot p goplsRes"
    by (simp_all add: noAlias_def)
  show ?case
  proof (cases "isDup absRoot results gr")
    case True
    with Cons.IH [OF Cons.prems(1) rest] show ?thesis by simp
  next
    case False
    have "l \<in> set (filter (resolvesTo absRoot p) results)" using Cons.prems(1) by simp
    then have "l \<in> set results" and "existingAbs absRoot l = p"
      by (simp_all add: resolvesTo_def)
    with False have "Path gr \<noteq> p" by (auto simp: isDup_iff)
    with rt have "\<not> resolvesTo absRoot p (relativize absRoot gr)"
      by blast
    with Cons.prems(1)
    have "filter (resolvesTo absRoot p) (results @ [relativize absRoot gr]) = [l]"
      by simp
    from Cons.IH [OF this rest] False show ?thesis by simp
  qed
qed

lemma mergeGopls_prefix: "\<exists>added. mergeGopls absRoot results goplsRes = results @ added"
proof (induction goplsRes arbitrary: results)
  case Nil
  then show ?case by simp
next
  case (Cons gr goplsRes)
  show ?case
  proof (cases "isDup absRoot results gr")
    case True
    with Cons.IH [of results] show ?thesis by simp
  next
    case False
    from Cons.IH [of "results @ [relativize absRoot gr]"] False show ?thesis by auto
  qed
qed

lemma filter_singleton_sub:
  assumes "mset ys \<subseteq># mset xs" and "filter P xs = [l]"
  shows "filter P ys = [] \<or> filter P ys = [l]"
proof -
  have "mset (filter P ys) \<subseteq># mset (filter P xs)"
    using assms(1) by (simp add: multiset_filter_mono)
  then have sub: "mset (filter P ys) \<subseteq># {#l#}" using assms(2) by simp
  from size_mset_mono [OF sub] have len: "length (filter P ys) \<le> 1"
    by (simp del: mset_filter)
  from set_mset_mono [OF sub] have mem: "set (filter P ys) \<subseteq> {l}"
    by (simp del: mset_filter)
  show ?thesis
  proof (cases "filter P ys")
    case Nil
    then show ?thesis by simp
  next
    case (Cons a as)
    with len have "as = []" by simp
    moreover from Cons mem have "a = l" by simp
    ultimately show ?thesis using Cons by simp
  qed
qed

lemma roundTrips_examples:
  "roundTrips ''/home/u/proj''
     [dupRemote, depRemote,
      \<lparr>Path = ''/home/u/proj'', Score = 50, Reasons = [], IsDep = False\<rparr>,
      \<lparr>Path = ''/home/u/proj/a/b/c_test.go'', Score = 50, Reasons = [], IsDep = False\<rparr>,
      \<lparr>Path = ''/home/u/proj-old/a.go'', Score = 50, Reasons = [], IsDep = False\<rparr>,
      \<lparr>Path = ''/usr/lib/go/src/fmt/print.go'', Score = 50, Reasons = [], IsDep = False\<rparr>]"
  by code_simp

text \<open>
  C2.  Let the local goroutine append its records before the gopls goroutine
  merges, let exactly one local record resolve to the path of a remote record
  \<open>gr\<close> (a relative local path being joined to the root), and let the remote
  records have no alias of that path.  Then the merged collection
  has exactly one record for that path, the local one, unchanged; the output of
  \<open>Search\<close> has that record or, when the truncation to 50 cut it off, none for
  that path; it has it whenever the merged collection has at most 50 records.
\<close>

theorem merge_keeps_local_record:
  assumes contract: "sortSliceContract sortSlice"
    and one_local: "filter (resolvesTo absRoot (Path gr)) localRes = [l]"
    and remote: "gr \<in> set goplsRes"
    and clean: "noAlias absRoot (Path gr) goplsRes"
    and out: "Search sortSlice LocalFirst absRoot localRes (Some (Inr goplsRes)) = Inr out"
  shows "filter (resolvesTo absRoot (Path gr))
           (collect LocalFirst absRoot localRes (Some (Inr goplsRes))) = [l]
         \<and> (filter (resolvesTo absRoot (Path gr)) out = [l]
              \<or> filter (resolvesTo absRoot (Path gr)) out = [])
         \<and> (length (collect LocalFirst absRoot localRes (Some (Inr goplsRes))) \<le> 50
              \<longrightarrow> filter (resolvesTo absRoot (Path gr)) out = [l])"
proof -
  let ?m = "collect LocalFirst absRoot localRes (Some (Inr goplsRes))"
  let ?P = "resolvesTo absRoot (Path gr)"
  have m: "?m = mergeGopls absRoot localRes goplsRes"
    by (simp add: collect_def remoteBranch_def localBranch_def)
  have 1: "filter ?P ?m = [l]"
    unfolding m by (rule mergeGopls_keeps [OF one_local clean])
  from out have o: "out = take 50 (sortSlice scoreGreater ?m)" by (simp add: Search_eq)
  from contract have ms: "mset (sortSlice scoreGreater ?m) = mset ?m"
    by (simp add: sortSliceContract_def)
  have "mset out \<subseteq># mset ?m"
    unfolding o using mset_take_subset [of 50 "sortSlice scoreGreater ?m"] ms by simp
  from filter_singleton_sub [OF this 1]
  have 2: "filter ?P out = [l] \<or> filter ?P out = []" by blast
  have 3: "length ?m \<le> 50 \<longrightarrow> filter ?P out = [l]"
  proof
    assume "length ?m \<le> 50"
    moreover have "length (sortSlice scoreGreater ?m) = length ?m"
      using ms by (rule mset_eq_length)
    ultimately have "out = sortSlice scoreGreater ?m" by (simp add: o)
    then have "mset (filter ?P out) = mset (filter ?P ?m)"
      using ms by (simp only: mset_filter)
    with 1 have "mset (filter ?P out) = mset [l]" by simp
    then show "filter ?P out = [l]" by (metis mset_single_iff)
  qed
  from 1 2 3 show ?thesis by blast
qed

theorem merge_keeps_local_record_witness:
  "sortSliceContract insertionSort
   \<and> filter (resolvesTo ''/home/u/proj'' (Path dupRemote)) [dupLocal] = [dupLocal]
   \<and> noAlias ''/home/u/proj'' (Path dupRemote) [dupRemote, depRemote]
   \<and> Search insertionSort LocalFirst ''/home/u/proj'' [dupLocal] (Some (Inr [dupRemote, depRemote]))
       = Inr [dupLocal, depRemote]
   \<and> filter (resolvesTo ''/home/u/proj'' (Path dupRemote)) [dupLocal, depRemote] = [dupLocal]"
proof -
  have f: "filter (resolvesTo ''/home/u/proj'' (Path dupRemote)) [dupLocal] = [dupLocal]"
    by code_simp
  have m: "dupRemote \<in> set [dupRemote, depRemote]" by simp
  have r: "noAlias ''/home/u/proj'' (Path dupRemote) [dupRemote, depRemote]" by code_simp
  have s: "Search insertionSort LocalFirst ''/home/u/proj'' [dupLocal]
             (Some (Inr [dupRemote, depRemote])) = Inr [dupLocal, depRemote]"
    by code_simp
  have l: "length (collect LocalFirst ''/home/u/proj'' [dupLocal] (Some (Inr [dupRemote, depRemote]))) \<le> 50"
    by code_simp
  from merge_keeps_local_record [OF insertionSort_contract f m r s] l
  have "filter (resolvesTo ''/home/u/proj'' (Path dupRemote)) [dupLocal, depRemote] = [dupLocal]"
    by blast
  with insertionSort_contract f r s show ?thesis by blast
qed

text \<open>
  Truncation can remove the only record of the path: with 50 local records of a
  higher score, the local record of the duplicated path is cut off and the output
  has no record for that path.
\<close>

theorem truncation_drops_local_counterexample:
  "resolvesTo ''/home/u/proj'' (Path dupRemote) dupLocal
   \<and> dupLocal \<in> set manyLocal
   \<and> Search insertionSort LocalFirst ''/home/u/proj'' manyLocal (Some (Inr [dupRemote]))
       = Inr (map otherLocal [0..<50])
   \<and> filter (resolvesTo ''/home/u/proj'' (Path dupRemote)) (map otherLocal [0..<50]) = []"
proof -
  have 1: "resolvesTo ''/home/u/proj'' (Path dupRemote) dupLocal" by code_simp
  have 2: "dupLocal \<in> set manyLocal" by (simp add: manyLocal_def)
  have 3: "Search insertionSort LocalFirst ''/home/u/proj'' manyLocal (Some (Inr [dupRemote]))
       = Inr (map otherLocal [0..<50])"
    by code_simp
  have 4: "filter (resolvesTo ''/home/u/proj'' (Path dupRemote)) (map otherLocal [0..<50]) = []"
    by code_simp
  from 1 2 3 4 show ?thesis by blast
qed

text \<open>The same holds for every sorting function that meets the contract.\<close>

lemma truncation_drops_local_any_sort:
  assumes "sortSliceContract sortSlice"
    and "Search sortSlice LocalFirst ''/home/u/proj'' manyLocal (Some (Inr [dupRemote])) = Inr out"
  shows "filter (resolvesTo ''/home/u/proj'' (Path dupRemote)) out = []"
proof -
  let ?P = "resolvesTo ''/home/u/proj'' (Path dupRemote)"
  have m: "collect LocalFirst ''/home/u/proj'' manyLocal (Some (Inr [dupRemote])) = manyLocal"
    by code_simp
  from assms(2) have o: "out = take 50 (sortSlice scoreGreater manyLocal)"
    by (simp add: Search_eq m)
  have "map Score (take 50 (stableSortDesc manyLocal)) = replicate 50 200" by code_simp
  then have sc: "map Score out = replicate 50 200"
    by (simp add: o contract_scores [OF assms(1)] flip: take_map)
  have "\<forall>e \<in> set out. Score e = 200"
  proof
    fix e assume "e \<in> set out"
    then have "Score e \<in> set (map Score out)" by simp
    then show "Score e = 200" unfolding sc by simp
  qed
  moreover have "Score dupLocal = 90" by (simp add: dupLocal_def)
  ultimately have notin: "dupLocal \<notin> set out" by auto
  have f: "filter ?P manyLocal = [dupLocal]" by code_simp
  from assms(1) have "mset (sortSlice scoreGreater manyLocal) = mset manyLocal"
    by (simp add: sortSliceContract_def)
  then have "mset out \<subseteq># mset manyLocal"
    unfolding o using mset_take_subset [of 50 "sortSlice scoreGreater manyLocal"] by simp
  from filter_singleton_sub [OF this f]
  have "filter ?P out = [] \<or> filter ?P out = [dupLocal]" .
  moreover have "filter ?P out \<noteq> [dupLocal]"
  proof
    assume "filter ?P out = [dupLocal]"
    then have "dupLocal \<in> set (filter ?P out)" by simp
    with notin show False by simp
  qed
  ultimately show ?thesis by blast
qed

text \<open>
  Nothing makes the gopls goroutine wait for the local one.  When it takes the
  mutex first it compares against an empty slice, and the local records appended
  afterwards are not compared at all: both records of the file are returned.
\<close>

lemma remote_first_keeps_duplicate:
  "Search insertionSort RemoteFirst ''/home/u/proj'' [dupLocal] (Some (Inr [dupRemote]))
     = Inr [dupLocal, dupRemote\<lparr>Path := ''pkg/x.go''\<rparr>]"
  by code_simp

text \<open>
  The merge compares path strings, so a remote path that is not clean is an
  alias: it is not recognised as the local file, and made relative it names that
  file again.
\<close>

lemma unclean_remote_path_aliases:
  "Search insertionSort LocalFirst ''/home/u/proj'' [dupLocal]
     (Some (Inr [dupRemote\<lparr>Path := ''/home/u/proj/./pkg/x.go''\<rparr>]))
     = Inr [dupLocal, dupRemote\<lparr>Path := ''pkg/x.go''\<rparr>]"
  by code_simp

text \<open>
  C6.  \<open>Search\<close> tests \<open>strings.HasPrefix(gr.Path, absRoot)\<close>, which also holds
  for a path in a sibling directory whose name starts with the name of the root.
  Such a record lies outside the root, and yet its path is rewritten (to one that
  starts with \<open>..\<close>) and its dependency flag is cleared.
\<close>

theorem sibling_directory_relativized:
  "\<not> liesUnder ''/work/app'' (Path siblingRemote)
   \<and> relativize ''/work/app'' siblingRemote =
       \<lparr>Path = ''../app-cache/pkg/mod/m@v1.0.0/h.go'', Score = 35,
        Reasons = [''gopls:NewHelper''], IsDep = False\<rparr>
   \<and> Search insertionSort LocalFirst ''/work/app'' [] (Some (Inr [siblingRemote])) =
       Inr [\<lparr>Path = ''../app-cache/pkg/mod/m@v1.0.0/h.go'', Score = 35,
             Reasons = [''gopls:NewHelper''], IsDep = False\<rparr>]"
proof (intro conjI)
  show "\<not> liesUnder ''/work/app'' (Path siblingRemote)" by code_simp
  show "relativize ''/work/app'' siblingRemote =
       \<lparr>Path = ''../app-cache/pkg/mod/m@v1.0.0/h.go'', Score = 35,
        Reasons = [''gopls:NewHelper''], IsDep = False\<rparr>" by code_simp
  show "Search insertionSort LocalFirst ''/work/app'' [] (Some (Inr [siblingRemote])) =
       Inr [\<lparr>Path = ''../app-cache/pkg/mod/m@v1.0.0/h.go'', Score = 35,
             Reasons = [''gopls:NewHelper''], IsDep = False\<rparr>]" by code_simp
qed

section \<open>Properties of the read loop\<close>

text \<open>
  A frame whose \<open>Content-Length\<close> is absent, or is a string of fewer than 19
  bytes that is not a decimal number, has length 0 and is skipped; and when the
  loop returns, one of its two reads has failed.
\<close>

lemma Get_absent: "h key = None \<Longrightarrow> Get h key = []"
  by (simp add: Get_def)

lemma Atoi_empty: "Atoi [] = (0, ErrSyntax)"
  by (simp add: Atoi_def ParseInt_def)

lemma ReadLoop_skip:
  assumes "readMIMEHeader r = Some (h, r1)" and "fst (Atoi (Get h ''Content-Length'')) = 0"
  shows "ReadLoop readMIMEHeader readFull r acc = ReadLoop readMIMEHeader readFull r1 acc"
  using assms by (subst ReadLoop.simps) simp

lemma ReadLoop_skip_absent:
  assumes "readMIMEHeader r = Some (h, r1)" and "h ''Content-Length'' = None"
  shows "ReadLoop readMIMEHeader readFull r acc = ReadLoop readMIMEHeader readFull r1 acc"
  by (rule ReadLoop_skip [of readMIMEHeader r h r1, OF assms(1)])
    (simp add: Get_absent [of h, OF assms(2)] Atoi_empty)

lemma fastDigits_None: "\<not> list_all isDigit s \<Longrightarrow> fastDigits n s = None"
  by (induction s arbitrary: n) auto

lemma Atoi_not_decimal_short:
  assumes "\<not> isDecimal s" and "length s < 19"
  shows "Atoi s = (0, ErrSyntax)"
proof (cases "s = []")
  case True
  then show ?thesis by (simp add: Atoi_empty)
next
  case False
  with assms show ?thesis
    by (auto simp: Atoi_def isDecimal_def Let_def fastDigits_None)
qed

lemma ReadLoop_returns_on_failed_read:
  assumes "ReadLoop readMIMEHeader readFull r acc = Some y" and ret: "fst y = Returned"
  shows "\<exists>r'. readMIMEHeader r' = None \<or> (\<exists>n. readFull r' n = None)"
proof -
  have "fst y = Returned \<longrightarrow> (\<exists>r'. readMIMEHeader r' = None \<or> (\<exists>n. readFull r' n = None))"
  proof (rule ReadLoop.raw_induct
      [where P = "\<lambda>rh rf r acc y. fst y = Returned \<longrightarrow> (\<exists>r'. rh r' = None \<or> (\<exists>n. rf r' n = None))",
        OF _ assms(1)], goal_cases)
    case (1 loop readMIMEHeader readFull r acc y)
    show ?case
    proof (cases "readMIMEHeader r")
      case None
      then show ?thesis by blast
    next
      case (Some p)
      obtain h r1 where p: "p = (h, r1)" by (cases p)
      let ?len = "fst (Atoi (Get h ''Content-Length''))"
      show ?thesis
      proof (cases "?len = 0")
        case True
        with 1(2) Some p have "loop readMIMEHeader readFull r1 acc = Some y" by simp
        from 1(1) [OF this] show ?thesis .
      next
        case nz: False
        show ?thesis
        proof (cases "?len < 0 \<or> ?len > maxAlloc")
          case True
          with 1(2) Some p nz have "y = (Panicked, acc)" by auto
          then show ?thesis by simp
        next
          case ok: False
          show ?thesis
          proof (cases "readFull r1 (nat ?len)")
            case None
            then show ?thesis by blast
          next
            case (Some q)
            obtain body r2 where q: "q = (body, r2)" by (cases q)
            from 1(2) \<open>readMIMEHeader r = Some p\<close> p nz ok Some q
            have "loop readMIMEHeader readFull r2 (acc @ [body]) = Some y" by simp
            from 1(1) [OF this] show ?thesis .
          qed
        qed
      qed
    qed
  qed
  with ret show ?thesis by simp
qed

text \<open>
  C10.  The loop also ends without any failed read: \<open>Atoi\<close> accepts a sign, so
  a frame that declares \<open>Content-Length: -1\<close> has the length \<open>-1\<close>, which is
  not 0, and \<open>make([]byte, length)\<close> panics.
\<close>

theorem negative_length_panics:
  assumes "readMIMEHeader r = Some (h, r1)" and "h ''Content-Length'' = Some [''-1'']"
  shows "ReadLoop readMIMEHeader readFull r acc = Some (Panicked, acc)"
proof -
  have "Get h ''Content-Length'' = ''-1''" using assms(2) by (simp add: Get_def)
  moreover have "Atoi ''-1'' = (- 1, NoError)" by code_simp
  ultimately have "fst (Atoi (Get h ''Content-Length'')) = - 1" by simp
  with assms(1) show ?thesis by (subst ReadLoop.simps) simp
qed

theorem negative_length_panics_witness:
  "(\<forall>r. negReader r \<noteq> None) \<and> (\<forall>r n. fullReader r n \<noteq> None)
   \<and> ReadLoop negReader fullReader 0 [] = Some (Panicked, [])"
proof -
  have a: "negReader 0 = Some (negHeader, Suc 0)" by (simp add: negReader_def)
  have b: "negHeader ''Content-Length'' = Some [''-1'']" by (simp add: negHeader_def)
  from negative_length_panics [of negReader 0 negHeader "Suc 0" fullReader "[]", OF a b]
  show ?thesis by (simp add: negReader_def fullReader_def)
qed

text \<open>
  \<open>Atoi\<close> stops at the first overflow, before it has seen the rest of the
  string, and the loop drops its error: a value of twenty digits followed by a
  letter is not a decimal number, and its length is the largest integer, not 0.
\<close>

lemma overflowing_prefix_panics:
  assumes "readMIMEHeader r = Some (h, r1)"
    and "h ''Content-Length'' = Some [''99999999999999999999x'']"
  shows "\<not> isDecimal ''99999999999999999999x''
         \<and> ReadLoop readMIMEHeader readFull r acc = Some (Panicked, acc)"
proof
  show "\<not> isDecimal ''99999999999999999999x''" by code_simp
  have "Get h ''Content-Length'' = ''99999999999999999999x''"
    using assms(2) by (simp add: Get_def)
  moreover have "Atoi ''99999999999999999999x'' = (9223372036854775807, ErrRange)"
    by code_simp
  ultimately have "fst (Atoi (Get h ''Content-Length'')) = 9223372036854775807" by simp
  with assms(1) show "ReadLoop readMIMEHeader readFull r acc = Some (Panicked, acc)"
    by (subst ReadLoop.simps) (simp add: maxAlloc_def)
qed

end
